theory Spec2Isabelle
  imports Complex_Main
begin

section \<open>Points, vectors and the numpy operations used by \<open>repair/unravel.py\<close>\<close>

text \<open>
  A point of a section is a row of an \<open>(N, 3)\<close> array. Coordinates are modelled as real
  numbers: rounding of floating-point arithmetic is outside the model.
\<close>

datatype vec = Vec (vx: real) (vy: real) (vz: real)

text \<open>A 3x3 matrix, given by its three rows.\<close>

datatype mat = Mat (row0: vec) (row1: vec) (row2: vec)

definition vzero :: vec where
  "vzero = Vec 0 0 0"

fun vadd :: "vec \<Rightarrow> vec \<Rightarrow> vec" where
  "vadd (Vec a b c) (Vec x y z) = Vec (a + x) (b + y) (c + z)"

fun vsub :: "vec \<Rightarrow> vec \<Rightarrow> vec" where
  "vsub (Vec a b c) (Vec x y z) = Vec (a - x) (b - y) (c - z)"

text \<open>\<open>v *= k\<close> for an array \<open>v\<close> and a scalar \<open>k\<close>.\<close>

fun scale :: "real \<Rightarrow> vec \<Rightarrow> vec" where
  "scale k (Vec x y z) = Vec (x * k) (y * k) (z * k)"

text \<open>\<open>np.dot\<close> of two vectors, \<open>np.linalg.norm\<close> of a vector, \<open>np.sign\<close> of a scalar.\<close>

fun np_dot :: "vec \<Rightarrow> vec \<Rightarrow> real" where
  "np_dot (Vec a b c) (Vec x y z) = a * x + b * y + c * z"

definition np_norm :: "vec \<Rightarrow> real" where
  "np_norm v = sqrt (np_dot v v)"

definition np_sign :: "real \<Rightarrow> real" where
  "np_sign x = (if x < 0 then - 1 else if x = 0 then 0 else 1)"

text \<open>
  \<open>np.mean(X, axis=0)\<close>: the coordinate-wise mean of the rows. On an array without rows
  numpy returns NaN; the value is then subtracted from no row at all.
\<close>

definition np_mean :: "vec list \<Rightarrow> vec" where
  "np_mean X = Vec (sum_list (map vx X) / real (length X))
                   (sum_list (map vy X) / real (length X))
                   (sum_list (map vz X) / real (length X))"

text \<open>\<open>np.dot(X.T, X)\<close> for an \<open>(N, 3)\<close> array \<open>X\<close>: entry \<open>(j, k)\<close> is \<open>\<Sum>n. X[n, j] * X[n, k]\<close>.\<close>

definition entry :: "(vec \<Rightarrow> real) \<Rightarrow> (vec \<Rightarrow> real) \<Rightarrow> vec list \<Rightarrow> real" where
  "entry f g X = sum_list (map (\<lambda>p. f p * g p) X)"

definition np_dot_XT_X :: "vec list \<Rightarrow> mat" where
  "np_dot_XT_X X =
     Mat (Vec (entry vx vx X) (entry vx vy X) (entry vx vz X))
         (Vec (entry vy vx X) (entry vy vy X) (entry vy vz X))
         (Vec (entry vz vx X) (entry vz vy X) (entry vz vz X))"

text \<open>Column \<open>v[:, k]\<close> of a matrix and \<open>w.argmax()\<close>, the first index of the largest entry.\<close>

definition column :: "mat \<Rightarrow> nat \<Rightarrow> vec" where
  "column v k =
     (if k = 0 then Vec (vx (row0 v)) (vx (row1 v)) (vx (row2 v))
      else if k = 1 then Vec (vy (row0 v)) (vy (row1 v)) (vy (row2 v))
      else Vec (vz (row0 v)) (vz (row1 v)) (vz (row2 v)))"

definition argmax :: "vec \<Rightarrow> nat" where
  "argmax w =
     (if vy w \<le> vx w \<and> vz w \<le> vx w then 0
      else if vz w \<le> vy w then 1 else 2)"

text \<open>
  Python slicing \<open>xs[a:b]\<close> of a sequence: a negative bound counts from the end, and both
  bounds are clipped to \<open>[0, len(xs)]\<close>.
\<close>

definition clip_bound :: "nat \<Rightarrow> int \<Rightarrow> nat" where
  "clip_bound n i = (if i < 0 then nat (max (i + int n) 0) else min (nat i) n)"

definition py_slice :: "'a list \<Rightarrow> int \<Rightarrow> int \<Rightarrow> 'a list" where
  "py_slice xs a b =
     take (clip_bound (length xs) b - clip_bound (length xs) a)
          (drop (clip_bound (length xs) a) xs)"

section \<open>The principal direction of a point cloud\<close>

text \<open>
  \<open>np.linalg.eig\<close> belongs to numpy, not to this repository: it is a parameter of the
  model. It returns the eigenvalues \<open>w\<close> and a matrix \<open>v\<close> whose column \<open>v[:, k]\<close> is an
  eigenvector for \<open>w[k]\<close>.
\<close>

type_synonym eig = "mat \<Rightarrow> vec \<times> mat"

definition get_principal_direction :: "eig \<Rightarrow> vec list \<Rightarrow> vec" where
  "get_principal_direction eig points =
     (let X = points;
          m = np_mean X;
          X = map (\<lambda>p. vsub p m) X;
          C = np_dot_XT_X X;
          (w, v) = eig C
      in column v (argmax w))"

section \<open>Unravelling the points of one section\<close>

datatype error = IndexError | NonFinite | OtherError string

definition window_start :: "int \<Rightarrow> nat \<Rightarrow> int" where
  "window_start window_half_length window_center =
     max 0 (int window_center - window_half_length - 1)"

definition window_end :: "int \<Rightarrow> nat \<Rightarrow> nat \<Rightarrow> int" where
  "window_end window_half_length point_count window_center =
     min (int point_count) (int window_center + window_half_length + 1)"

definition window :: "int \<Rightarrow> vec list \<Rightarrow> nat \<Rightarrow> vec list" where
  "window window_half_length points window_center =
     py_slice points (window_start window_half_length window_center)
                     (window_end window_half_length (length points) window_center)"

text \<open>
  The two in-place updates of \<open>direction\<close>: rescaling to the length of the segment, then
  multiplying by the sign of the dot product with the segment.
\<close>

definition rescaled :: "vec \<Rightarrow> vec \<Rightarrow> vec" where
  "rescaled segment direction = scale (np_norm segment / np_norm direction) direction"

definition pointed :: "vec \<Rightarrow> vec \<Rightarrow> vec" where
  "pointed segment direction = scale (np_sign (np_dot segment direction)) direction"

text \<open>
  One iteration of the loop over \<open>window_center\<close>. A direction of norm zero makes numpy
  divide by zero and continue with NaN or infinity; the real numbers have neither, so the
  model stops there with \<open>NonFinite\<close>.
\<close>

definition unravel_step :: "eig \<Rightarrow> int \<Rightarrow> vec list \<Rightarrow> vec list \<Rightarrow> nat \<Rightarrow> error + vec list" where
  "unravel_step eig window_half_length points unravelled_points window_center =
     (let direction = get_principal_direction eig (window window_half_length points window_center);
          segment = vsub (points ! window_center) (points ! (window_center - 1))
      in if np_norm direction = 0 then Inl NonFinite
         else
           let direction = rescaled segment direction;
               direction = pointed segment direction
           in Inr (unravelled_points @ [vadd direction (unravelled_points ! (window_center - 1))]))"

fun unravel_loop :: "eig \<Rightarrow> int \<Rightarrow> vec list \<Rightarrow> vec list \<Rightarrow> nat list \<Rightarrow> error + vec list" where
  "unravel_loop eig window_half_length points unravelled_points [] = Inr unravelled_points"
| "unravel_loop eig window_half_length points unravelled_points (window_center # rest) =
     (case unravel_step eig window_half_length points unravelled_points window_center of
        Inl e \<Rightarrow> Inl e
      | Inr unravelled_points' \<Rightarrow>
          unravel_loop eig window_half_length points unravelled_points' rest)"

text \<open>The loop \<open>for window_center in range(1, point_count)\<close>, started from the first point.\<close>

definition unravel_points :: "eig \<Rightarrow> int \<Rightarrow> vec list \<Rightarrow> vec \<Rightarrow> error + vec list" where
  "unravel_points eig window_half_length points first =
     unravel_loop eig window_half_length points [first] [1..<length points]"

section \<open>The arrays in memory\<close>

text \<open>
  A numpy array is an object in memory, and a slice of an array is a view of the same
  memory: writing through the view writes into the array. To state that the input is not
  written to, the arrays are kept in a heap, a list addressed by position, and an
  \<open>ndarray\<close> is a view of the rows \<open>start ..< stop\<close> of the array at address \<open>base\<close>.
\<close>

type_synonym heap = "vec list list"

record ndarray =
  base :: nat
  start :: nat
  stop :: nat

definition rows :: "heap \<Rightarrow> ndarray \<Rightarrow> vec list" where
  "rows h a = take (stop a - start a) (drop (start a) (h ! base a))"

text \<open>\<open>a[lo:hi]\<close> on an array: a view of the same memory, with the bounds of a Python slice.\<close>

definition np_slice :: "ndarray \<Rightarrow> int \<Rightarrow> int \<Rightarrow> ndarray" where
  "np_slice a lo hi =
     (let n = stop a - start a
      in a\<lparr>start := start a + clip_bound n lo,
            stop := start a + max (clip_bound n lo) (clip_bound n hi)\<rparr>)"

text \<open>\<open>np.asarray\<close> of an array is the array itself, \<open>np.copy\<close> allocates a new one.\<close>

definition np_asarray :: "ndarray \<Rightarrow> ndarray" where
  "np_asarray a = a"

definition np_copy :: "heap \<Rightarrow> ndarray \<Rightarrow> heap \<times> ndarray" where
  "np_copy h a = (h @ [rows h a], \<lparr>base = length h, start = 0, stop = length (rows h a)\<rparr>)"

text \<open>\<open>X -= m\<close>: every row of the view is overwritten in place.\<close>

definition isub :: "heap \<Rightarrow> ndarray \<Rightarrow> vec \<Rightarrow> heap" where
  "isub h X m =
     h[base X := map (\<lambda>i. if start X \<le> i \<and> i < stop X then vsub (h ! base X ! i) m
                            else h ! base X ! i)
                     [0..<length (h ! base X)]]"

definition get_principal_direction_h :: "eig \<Rightarrow> heap \<Rightarrow> ndarray \<Rightarrow> heap \<times> vec" where
  "get_principal_direction_h eig h points =
     (let (h, X) = np_copy h (np_asarray points);
          h = isub h X (np_mean (rows h X));
          C = np_dot_XT_X (rows h X);
          (w, v) = eig C
      in (h, column v (argmax w)))"

text \<open>
  The loops of \<open>unravel\<close> once more, with the heap passed along. \<open>points\<close> is the array of
  the input section; the window is a view of it. The heap is returned whether or not an
  exception is raised: what has been written stays written.
\<close>

definition unravel_step_h ::
  "eig \<Rightarrow> int \<Rightarrow> heap \<Rightarrow> ndarray \<Rightarrow> vec list \<Rightarrow> nat \<Rightarrow> heap \<times> (error + vec list)" where
  "unravel_step_h eig window_half_length h points unravelled_points window_center =
     (let point_count = stop points - start points;
          window_start = max 0 (int window_center - window_half_length - 1);
          window_end = min (int point_count) (int window_center + window_half_length + 1);
          (h, direction) = get_principal_direction_h eig h (np_slice points window_start window_end);
          segment = vsub (rows h points ! window_center) (rows h points ! (window_center - 1))
      in if np_norm direction = 0 then (h, Inl NonFinite)
         else
           let direction = rescaled segment direction;
               direction = pointed segment direction
           in (h, Inr (unravelled_points @ [vadd direction (unravelled_points ! (window_center - 1))])))"

fun unravel_loop_h ::
  "eig \<Rightarrow> int \<Rightarrow> heap \<Rightarrow> ndarray \<Rightarrow> vec list \<Rightarrow> nat list \<Rightarrow> heap \<times> (error + vec list)" where
  "unravel_loop_h eig window_half_length h points unravelled_points [] = (h, Inr unravelled_points)"
| "unravel_loop_h eig window_half_length h points unravelled_points (window_center # rest) =
     (case unravel_step_h eig window_half_length h points unravelled_points window_center of
        (h', Inl e) \<Rightarrow> (h', Inl e)
      | (h', Inr unravelled_points') \<Rightarrow>
          unravel_loop_h eig window_half_length h' points unravelled_points' rest)"

definition unravel_points_h ::
  "eig \<Rightarrow> int \<Rightarrow> heap \<Rightarrow> ndarray \<Rightarrow> vec \<Rightarrow> heap \<times> (error + vec list)" where
  "unravel_points_h eig window_half_length h points first =
     unravel_loop_h eig window_half_length h points [first] [1..<stop points - start points]"

section \<open>Morphologies and the traversal of their sections\<close>

text \<open>
  The sections of a morphology are addressed by their id, the index in the list. A section
  knows its points and the id of its parent; a root section has no parent. The immutable
  \<open>morphio.Morphology\<close> and the mutable \<open>morphio.mut.Morphology\<close> built from it have the
  same shape, so one type serves for both.
\<close>

record Section =
  points :: "vec list"
  parent :: "nat option"

type_synonym morphology = "Section list"

definition is_root :: "Section \<Rightarrow> bool" where
  "is_root s = (parent s = None)"

text \<open>\<open>xs[0]\<close> and \<open>xs[-1]\<close>: both raise IndexError on an empty sequence.\<close>

definition first_point :: "'a list \<Rightarrow> error + 'a" where
  "first_point xs = (case xs of [] \<Rightarrow> Inl IndexError | x # _ \<Rightarrow> Inr x)"

definition last_point :: "'a list \<Rightarrow> error + 'a" where
  "last_point xs = (if xs = [] then Inl IndexError else Inr (last xs))"

text \<open>
  The body of the loop over the sections: \<open>sec\<close> is section \<open>sid\<close> of the input \<open>morph\<close>,
  \<open>new_section\<close> is section \<open>sid\<close> of \<open>new_morph\<close>, whose points are overwritten.
\<close>

definition unravel_section :: "eig \<Rightarrow> int \<Rightarrow> morphology \<Rightarrow> morphology \<Rightarrow> nat \<Rightarrow> error + morphology" where
  "unravel_section eig window_half_length morph new_morph sid =
     (let sec = morph ! sid;
          new_section = new_morph ! sid
      in case (if is_root new_section then first_point (points new_section)
               else last_point (points (new_morph ! the (parent new_section)))) of
           Inl e \<Rightarrow> Inl e
         | Inr first \<Rightarrow>
             (case unravel_points eig window_half_length (points sec) first of
                Inl e \<Rightarrow> Inl e
              | Inr unravelled_points \<Rightarrow>
                  Inr (new_morph[sid := new_section\<lparr>points := unravelled_points\<rparr>])))"

fun unravel_sections :: "eig \<Rightarrow> int \<Rightarrow> morphology \<Rightarrow> morphology \<Rightarrow> nat list \<Rightarrow> error + morphology" where
  "unravel_sections eig window_half_length morph new_morph [] = Inr new_morph"
| "unravel_sections eig window_half_length morph new_morph (sid # rest) =
     (case unravel_section eig window_half_length morph new_morph sid of
        Inl e \<Rightarrow> Inl e
      | Inr new_morph' \<Rightarrow> unravel_sections eig window_half_length morph new_morph' rest)"

text \<open>
  \<open>unravel\<close> on a morphology that has been read. \<open>iter\<close> is the sequence of section ids
  that \<open>morph.iter()\<close> and \<open>new_morph.iter()\<close> of morphio yield; \<open>new_morph\<close> starts as a
  copy of \<open>morph\<close>.
\<close>

definition unravel :: "eig \<Rightarrow> int \<Rightarrow> nat list \<Rightarrow> morphology \<Rightarrow> error + morphology" where
  "unravel eig window_half_length iter morph =
     unravel_sections eig window_half_length morph morph iter"

text \<open>
  The property of morphio's traversal that the algorithm relies on: every id is a section
  of the morphology, no section is visited twice, and the parent of a section is visited
  before the section. \<open>seen\<close> are the ids visited so far.
\<close>

fun parents_first :: "morphology \<Rightarrow> nat list \<Rightarrow> nat list \<Rightarrow> bool" where
  "parents_first morph seen [] = True"
| "parents_first morph seen (sid # rest) =
     (sid < length morph \<and> sid \<notin> set seen
      \<and> (case parent (morph ! sid) of None \<Rightarrow> True | Some p \<Rightarrow> p \<in> set seen)
      \<and> parents_first morph (seen @ [sid]) rest)"

section \<open>What numpy's eigen-solver is taken to guarantee\<close>

definition mat_vec :: "mat \<Rightarrow> vec \<Rightarrow> vec" where
  "mat_vec C u = Vec (np_dot (row0 C) u) (np_dot (row1 C) u) (np_dot (row2 C) u)"

text \<open>The matrix \<open>C\<close> that \<open>_get_principal_direction\<close> hands to the eigen-solver.\<close>

definition covariance :: "vec list \<Rightarrow> mat" where
  "covariance X = np_dot_XT_X (map (\<lambda>p. vsub p (np_mean X)) X)"

text \<open>
  \<open>d\<close> is a principal direction of \<open>C\<close>: an eigenvector, not the zero vector, for an
  eigenvalue that no other eigenvalue of \<open>C\<close> exceeds. This is the docstring of
  \<open>_get_principal_direction\<close>: "the eigen vector of the covariance matrix with the highest
  eigen value".
\<close>

definition is_principal :: "mat \<Rightarrow> vec \<Rightarrow> bool" where
  "is_principal C d =
     (d \<noteq> vzero \<and>
      (\<exists>lam. mat_vec C d = scale lam d \<and>
             (\<forall>u mu. u \<noteq> vzero \<and> mat_vec C u = scale mu u \<longrightarrow> mu \<le> lam)))"

definition eig_exact_on :: "eig \<Rightarrow> vec list \<Rightarrow> bool" where
  "eig_exact_on eig X = is_principal (covariance X) (get_principal_direction eig X)"

text \<open>
  The contract of \<open>np.linalg.eig\<close> in exact arithmetic, a statement about the solver
  alone: column \<open>k\<close> of \<open>v\<close> is an eigenvector, not the zero vector, for the eigenvalue
  \<open>w[k]\<close>, and every eigenvalue of the matrix is among the entries of \<open>w\<close>.
\<close>

definition eigenpairs :: "vec \<times> mat \<Rightarrow> (real \<times> vec) list" where
  "eigenpairs wv =
     (case wv of (w, v) \<Rightarrow>
        [(vx w, Vec (vx (row0 v)) (vx (row1 v)) (vx (row2 v))),
         (vy w, Vec (vy (row0 v)) (vy (row1 v)) (vy (row2 v))),
         (vz w, Vec (vz (row0 v)) (vz (row1 v)) (vz (row2 v)))])"

definition eig_sound :: "eig \<Rightarrow> mat \<Rightarrow> bool" where
  "eig_sound eig C =
     ((\<forall>(lam, u) \<in> set (eigenpairs (eig C)). u \<noteq> vzero \<and> mat_vec C u = scale lam u) \<and>
      (\<forall>u mu. u \<noteq> vzero \<and> mat_vec C u = scale mu u
          \<longrightarrow> mu \<in> fst ` set (eigenpairs (eig C))))"

text \<open>
  An eigen-solver that is exact on diagonal matrices: the eigenvalues are the diagonal and
  the eigenvectors are the unit vectors. Used where a concrete solver is needed.
\<close>

definition eig_diagonal :: eig where
  "eig_diagonal C =
     (Vec (vx (row0 C)) (vy (row1 C)) (vz (row2 C)),
      Mat (Vec 1 0 0) (Vec 0 1 0) (Vec 0 0 1))"

section \<open>The batch driver\<close>

text \<open>
  \<open>unravel(filename, window_half_length)\<close> as the driver calls it: morphio reads the file
  (\<open>read_morphology\<close>, a parameter, gives the sections and the traversal, or raises) and
  the sections are unravelled.
\<close>

definition unravel_file ::
  "(string \<Rightarrow> error + morphology \<times> nat list) \<Rightarrow> eig \<Rightarrow> int \<Rightarrow> string \<Rightarrow> error + morphology" where
  "unravel_file read_morphology eig window_half_length filename =
     (case read_morphology filename of
        Inl e \<Rightarrow> Inl e
      | Inr (morph, iter) \<Rightarrow> unravel eig window_half_length iter morph)"

datatype log_record = Info string | Warning string | WarningException error

text \<open>What a run leaves behind: the files written, in order, and the log.\<close>

record world =
  written :: "(string \<times> morphology) list"
  logged :: "log_record list"

definition os_path_join :: "string \<Rightarrow> string \<Rightarrow> string" where
  "os_path_join d f =
     (if f \<noteq> [] \<and> hd f = CHR ''/'' then f
      else if d = [] \<or> last d = CHR ''/'' then d @ f
      else d @ ''/'' @ f)"

definition os_path_basename :: "string \<Rightarrow> string" where
  "os_path_basename f = rev (takeWhile (\<lambda>c. c \<noteq> CHR ''/'') (rev f))"

text \<open>
  The loop over the files. \<open>run\<close> is \<open>unravel(inputfilename, window_half_length)\<close>;
  \<open>write\<close> is the \<open>write\<close> method of morphio, returning the exception it raises, if any.
  Both branches of the \<open>try\<close> statement continue with the next file.
\<close>

fun unravel_all_loop ::
  "(string \<Rightarrow> error + morphology) \<Rightarrow> (morphology \<Rightarrow> string \<Rightarrow> error option) \<Rightarrow>
   string \<Rightarrow> string \<Rightarrow> string list \<Rightarrow> world \<Rightarrow> world" where
  "unravel_all_loop run write input_dir output_dir [] w = w"
| "unravel_all_loop run write input_dir output_dir (f # files) w =
     (let w = w\<lparr>logged := logged w @ [Info f]\<rparr>;
          inputfilename = os_path_join input_dir f;
          outfilename = os_path_join output_dir (os_path_basename f);
          failed = (\<lambda>e. w\<lparr>logged := logged w @ [Warning (''Unravelling '' @ f @ '' failed''),
                                         WarningException e]\<rparr>)
      in case run inputfilename of
           Inl e \<Rightarrow> unravel_all_loop run write input_dir output_dir files (failed e)
         | Inr new_morph \<Rightarrow>
             (case write new_morph outfilename of
                Some e \<Rightarrow> unravel_all_loop run write input_dir output_dir files (failed e)
              | None \<Rightarrow>
                  unravel_all_loop run write input_dir output_dir files
                    (w\<lparr>written := written w @ [(outfilename, new_morph)]\<rparr>)))"

text \<open>
  \<open>good_ext\<close> of \<open>repair.utils\<close> and \<open>os.listdir\<close> are parameters: the first is not among
  the sources, the second belongs to the operating system.
\<close>

definition unravel_all ::
  "(string \<Rightarrow> bool) \<Rightarrow> (string \<Rightarrow> string list) \<Rightarrow>
   (string \<Rightarrow> error + morphology \<times> nat list) \<Rightarrow> (morphology \<Rightarrow> string \<Rightarrow> error option) \<Rightarrow>
   eig \<Rightarrow> string \<Rightarrow> string \<Rightarrow> int \<Rightarrow> world \<Rightarrow> world" where
  "unravel_all good_ext listdir read_morphology write eig input_dir output_dir window_half_length w =
     (let files = filter good_ext (listdir input_dir)
      in unravel_all_loop (unravel_file read_morphology eig window_half_length) write
           input_dir output_dir files w)"

text \<open>Whether the \<open>try\<close> block of a file completes, and with what.\<close>

definition attempt ::
  "(string \<Rightarrow> error + morphology) \<Rightarrow> (morphology \<Rightarrow> string \<Rightarrow> error option) \<Rightarrow>
   string \<Rightarrow> string \<Rightarrow> string \<Rightarrow> error + string \<times> morphology" where
  "attempt run write input_dir output_dir f =
     (case run (os_path_join input_dir f) of
        Inl e \<Rightarrow> Inl e
      | Inr m \<Rightarrow>
          (case write m (os_path_join output_dir (os_path_basename f)) of
             Some e \<Rightarrow> Inl e
           | None \<Rightarrow> Inr (os_path_join output_dir (os_path_basename f), m)))"

section \<open>The traversal with the arrays in memory\<close>

text \<open>
  The points of section \<open>sid\<close> of the input morphology are the array at address \<open>sid\<close>;
  \<open>sec.points\<close> is the whole of it. The mutable morphology is morphio's copy, with
  memory of its own.
\<close>

definition unravel_section_h ::
  "eig \<Rightarrow> int \<Rightarrow> heap \<Rightarrow> morphology \<Rightarrow> nat \<Rightarrow> heap \<times> (error + morphology)" where
  "unravel_section_h eig window_half_length h new_morph sid =
     (let sec_points = \<lparr>base = sid, start = 0, stop = length (h ! sid)\<rparr>;
          new_section = new_morph ! sid
      in case (if is_root new_section then first_point (points new_section)
               else last_point (points (new_morph ! the (parent new_section)))) of
           Inl e \<Rightarrow> (h, Inl e)
         | Inr first \<Rightarrow>
             (case unravel_points_h eig window_half_length h sec_points first of
                (h', Inl e) \<Rightarrow> (h', Inl e)
              | (h', Inr unravelled_points) \<Rightarrow>
                  (h', Inr (new_morph[sid := new_section\<lparr>points := unravelled_points\<rparr>]))))"

fun unravel_sections_h ::
  "eig \<Rightarrow> int \<Rightarrow> heap \<Rightarrow> morphology \<Rightarrow> nat list \<Rightarrow> heap \<times> (error + morphology)" where
  "unravel_sections_h eig window_half_length h new_morph [] = (h, Inr new_morph)"
| "unravel_sections_h eig window_half_length h new_morph (sid # rest) =
     (case unravel_section_h eig window_half_length h new_morph sid of
        (h', Inl e) \<Rightarrow> (h', Inl e)
      | (h', Inr new_morph') \<Rightarrow> unravel_sections_h eig window_half_length h' new_morph' rest)"

text \<open>At the start the heap holds the point arrays of the input sections, and nothing else.\<close>

definition unravel_h :: "eig \<Rightarrow> int \<Rightarrow> nat list \<Rightarrow> morphology \<Rightarrow> heap \<times> (error + morphology)" where
  "unravel_h eig window_half_length iter morph =
     unravel_sections_h eig window_half_length (map points morph) morph iter"

section \<open>The sliding window\<close>

lemma take_drop_upt:
  assumes "a \<le> b" "b \<le> length xs"
  shows "take (b - a) (drop a xs) = map ((!) xs) [a..<b]"
proof (rule nth_equalityI)
  show "length (take (b - a) (drop a xs)) = length (map ((!) xs) [a..<b])"
    using assms by simp
next
  fix i assume "i < length (take (b - a) (drop a xs))"
  then have i: "i < b - a" by simp
  then show "take (b - a) (drop a xs) ! i = map ((!) xs) [a..<b] ! i"
    using assms by simp
qed

lemma py_slice_in_range:
  assumes "a \<le> b" "b \<le> length xs"
  shows "py_slice xs (int a) (int b) = map ((!) xs) [a..<b]"
  using take_drop_upt[OF assms] assms by (simp add: py_slice_def clip_bound_def)

lemma window_eq:
  assumes "1 \<le> i" "i < length pts" "0 \<le> H"
  shows "window H pts i =
           map ((!) pts) [nat (max 0 (int i - H - 1)) ..< nat (min (int (length pts)) (int i + H + 1))]"
proof -
  let ?a = "nat (max 0 (int i - H - 1))"
  let ?b = "nat (min (int (length pts)) (int i + H + 1))"
  have ab: "?a \<le> ?b" "?b \<le> length pts" using assms by auto
  have "window_start H i = int ?a" "window_end H (length pts) i = int ?b"
    using assms by (auto simp: window_start_def window_end_def)
  then show ?thesis
    using py_slice_in_range[OF ab] by (simp add: window_def)
qed

lemma upt_pair: "1 \<le> i \<Longrightarrow> [i - 1 ..< Suc i] = [i - 1, i]"
  by (cases i) simp_all

lemma diff_two: "(a::nat) \<le> i - 1 \<Longrightarrow> Suc i \<le> b \<Longrightarrow> 1 \<le> i \<Longrightarrow> 2 \<le> b - a"
  by arith

lemma map_upt_nth: "a \<le> k \<Longrightarrow> k < b \<Longrightarrow> map f [a..<b] ! (k - a) = f k"
  by (simp add: nth_map_upt)

text \<open>The slice, its indices and the case \<open>H = 0\<close>.\<close>

lemma window_slice:
  assumes "1 \<le> i" "i < length pts" "0 \<le> H"
  shows "window H pts i =
           map ((!) pts) [nat (max 0 (int i - H - 1)) ..< nat (min (int (length pts)) (int i + H + 1))]
       \<and> (\<forall>k \<in> set [nat (max 0 (int i - H - 1)) ..< nat (min (int (length pts)) (int i + H + 1))].
             k < length pts)
       \<and> (H = 0 \<longrightarrow> window H pts i = [pts ! (i - 1), pts ! i])"
proof (intro conjI impI)
  show "window H pts i =
           map ((!) pts) [nat (max 0 (int i - H - 1)) ..< nat (min (int (length pts)) (int i + H + 1))]"
    by (rule window_eq[OF assms])
next
  show "\<forall>k \<in> set [nat (max 0 (int i - H - 1)) ..< nat (min (int (length pts)) (int i + H + 1))].
             k < length pts"
    using assms(2) by auto
next
  assume H0: "H = 0"
  have a: "nat (max 0 (int i - H - 1)) = i - 1" using H0 assms(1) by simp
  have b: "nat (min (int (length pts)) (int i + H + 1)) = Suc i" using H0 assms(2) by simp
  show "window H pts i = [pts ! (i - 1), pts ! i]"
    unfolding window_eq[OF assms] a b upt_pair[OF assms(1)] by simp
qed

text \<open>
  C10. For \<open>H \<ge> 0\<close> and \<open>1 \<le> i < point_count\<close> the window starts at or before \<open>i - 1\<close>
  and ends at or after \<open>i + 1\<close>; it has at least two points, and the points at \<open>i - 1\<close>
  and \<open>i\<close> are among them. The estimator is never run on an empty point cloud.
\<close>

theorem window_has_both_endpoints:
  assumes "1 \<le> i" "i < length pts" "0 \<le> H"
  shows "window_start H i \<le> int i - 1 \<and> int i + 1 \<le> window_end H (length pts) i
       \<and> 2 \<le> length (window H pts i)
       \<and> window H pts i ! (i - 1 - nat (window_start H i)) = pts ! (i - 1)
       \<and> window H pts i ! (i - nat (window_start H i)) = pts ! i"
proof -
  let ?a = "nat (max 0 (int i - H - 1))"
  let ?b = "nat (min (int (length pts)) (int i + H + 1))"
  have a: "?a \<le> i - 1" using assms by simp
  have b: "Suc i \<le> ?b" using assms by simp
  have s: "nat (window_start H i) = ?a" by (simp add: window_start_def)
  have w: "window H pts i = map ((!) pts) [?a..<?b]" by (rule window_eq[OF assms])
  have len: "2 \<le> length (window H pts i)"
    unfolding w using diff_two[OF a b assms(1)] by simp
  have n1: "window H pts i ! (i - 1 - ?a) = pts ! (i - 1)"
    unfolding w using a b by (intro map_upt_nth) simp_all
  have n2: "window H pts i ! (i - ?a) = pts ! i"
    unfolding w using a b assms(1) by (intro map_upt_nth) simp_all
  have c: "window_start H i \<le> int i - 1" using assms by (simp add: window_start_def)
  have d: "int i + 1 \<le> window_end H (length pts) i"
    using assms by (simp add: window_end_def)
  show ?thesis unfolding s using c d len n1 n2 by blast
qed

theorem window_has_both_endpoints_witness:
  "2 \<le> length (window 5 [Vec 0 0 0, Vec 0 10 0, Vec 12 5 0] 1)
   \<and> window 5 [Vec 0 0 0, Vec 0 10 0, Vec 12 5 0] 1 ! 0 = Vec 0 0 0
   \<and> window 5 [Vec 0 0 0, Vec 0 10 0, Vec 12 5 0] 1 ! 1 = Vec 0 10 0"
  using window_has_both_endpoints[of 1 "[Vec 0 0 0, Vec 0 10 0, Vec 12 5 0]" 5]
  by (simp add: window_start_def)

section \<open>Vector algebra\<close>

lemma np_norm_nonneg: "0 \<le> np_norm v"
  by (cases v) (simp add: np_norm_def)

lemma np_dot_self_nonneg: "0 \<le> np_dot v v"
  by (cases v) simp

lemma np_dot_self_zero: "np_dot v v = 0 \<longleftrightarrow> v = vzero"
proof (cases v)
  case (Vec x y z)
  have "x * x + y * y + z * z = 0 \<longleftrightarrow> x = 0 \<and> y = 0 \<and> z = 0"
  proof -
    have "0 \<le> x * x" "0 \<le> y * y" "0 \<le> z * z" "0 \<le> x * x + y * y" by simp_all
    then show ?thesis by (simp add: add_nonneg_eq_0_iff)
  qed
  then show ?thesis using Vec by (simp add: vzero_def)
qed

lemma np_norm_zero: "np_norm v = 0 \<longleftrightarrow> v = vzero"
  by (simp add: np_norm_def np_dot_self_zero)

lemma np_dot_scale: "np_dot s (scale k d) = k * np_dot s d"
  by (cases s; cases d) (simp add: algebra_simps)

lemma np_dot_scale_scale: "np_dot (scale k d) (scale k d) = k * k * np_dot d d"
  by (cases d) (simp add: algebra_simps)

lemma np_norm_scale: "np_norm (scale k v) = \<bar>k\<bar> * np_norm v"
  by (simp add: np_norm_def np_dot_scale_scale real_sqrt_mult)

lemma scale_scale: "scale a (scale b v) = scale (a * b) v"
  by (cases v) simp

lemma scale_one: "scale 1 v = v"
  by (cases v) simp

lemma scale_zero: "scale 0 v = vzero"
  by (cases v) (simp add: vzero_def)

lemma np_sign_abs: "x \<noteq> 0 \<Longrightarrow> \<bar>np_sign x\<bar> = 1"
  by (simp add: np_sign_def)

lemma norm_rescaled: "np_norm d \<noteq> 0 \<Longrightarrow> np_norm (rescaled s d) = np_norm s"
  using np_norm_nonneg[of s] np_norm_nonneg[of d]
  by (simp add: rescaled_def np_norm_scale)

lemma norm_pointed_rescaled:
  assumes "np_norm d \<noteq> 0" "np_dot s (rescaled s d) \<noteq> 0"
  shows "np_norm (pointed s (rescaled s d)) = np_norm s"
  using assms by (simp add: pointed_def np_norm_scale np_sign_abs norm_rescaled)

lemma pointed_orthogonal: "np_dot s r = 0 \<Longrightarrow> pointed s r = vzero"
  by (simp add: pointed_def np_sign_def scale_zero)

lemma np_sign_mult_pos: "0 < a \<Longrightarrow> np_sign (c * a) = np_sign c"
  by (simp add: np_sign_def zero_less_mult_iff mult_less_0_iff)

lemma np_sign_sq: "c \<noteq> 0 \<Longrightarrow> np_sign c * (c / \<bar>c\<bar>) = 1"
  by (simp add: np_sign_def)

lemma pointed_rescaled_parallel:
  assumes "s \<noteq> vzero" "c \<noteq> 0"
  shows "pointed s (rescaled s (scale c s)) = s"
proof -
  have n: "0 < np_norm s" using assms(1) np_norm_nonneg[of s] np_norm_zero[of s] by linarith
  have ss: "0 < np_dot s s" using assms(1) np_dot_self_nonneg[of s] np_dot_self_zero[of s] by linarith
  have r: "rescaled s (scale c s) = scale (c / \<bar>c\<bar>) s"
    using n assms(2) by (simp add: rescaled_def np_norm_scale scale_scale)
  have "np_dot s (scale (c / \<bar>c\<bar>) s) = (c / \<bar>c\<bar>) * np_dot s s" by (rule np_dot_scale)
  moreover have "0 < np_dot s s / \<bar>c\<bar>" using ss assms(2) by simp
  ultimately have sg: "np_sign (np_dot s (scale (c / \<bar>c\<bar>) s)) = np_sign c"
    using np_sign_mult_pos[of "np_dot s s / \<bar>c\<bar>" c] by (simp add: mult.commute)
  have "pointed s (rescaled s (scale c s)) = scale (np_sign c * (c / \<bar>c\<bar>)) s"
    unfolding r pointed_def sg scale_scale ..
  then show ?thesis
    unfolding np_sign_sq[OF assms(2)] scale_one .
qed

lemma sqrt_100: "sqrt 100 = 10"
  using real_sqrt_abs[of 10] by simp

lemma sqrt_169: "sqrt 169 = 13"
  using real_sqrt_abs[of 13] by simp

section \<open>Invariants of the loops\<close>

lemma unravel_step_Inr:
  assumes "unravel_step eig H pts acc wc = Inr r"
  shows "r = acc @ [vadd (pointed (vsub (pts ! wc) (pts ! (wc - 1)))
                       (rescaled (vsub (pts ! wc) (pts ! (wc - 1)))
                          (get_principal_direction eig (window H pts wc))))
                     (acc ! (wc - 1))]"
    and "np_norm (get_principal_direction eig (window H pts wc)) \<noteq> 0"
  using assms by (auto simp: unravel_step_def Let_def split: if_splits)

lemma unravel_loop_prefix:
  "unravel_loop eig H pts acc cs = Inr r \<Longrightarrow>
     length r = length acc + length cs \<and> take (length acc) r = acc"
proof (induction cs arbitrary: acc)
  case Nil
  then show ?case by simp
next
  case (Cons wc cs)
  from Cons.prems obtain acc' where s: "unravel_step eig H pts acc wc = Inr acc'"
    and l: "unravel_loop eig H pts acc' cs = Inr r"
    by (auto split: sum.splits)
  from unravel_step_Inr(1)[OF s] obtain x where a: "acc' = acc @ [x]" by blast
  from Cons.IH[OF l] have "length r = length acc' + length cs" "take (length acc') r = acc'"
    by simp_all
  then have "length r = length acc + length (wc # cs)" "take (length acc) (take (length acc') r) = acc"
    using a by simp_all
  then show ?case using a by (simp add: min_def)
qed

lemma unravel_points_shape:
  assumes "unravel_points eig H pts first = Inr r"
  shows "length r = max 1 (length pts)" "r \<noteq> []" "hd r = first"
proof -
  from unravel_loop_prefix[OF assms[unfolded unravel_points_def]]
  have l: "length r = 1 + (length pts - 1)" and t: "take 1 r = [first]" by simp_all
  show "length r = max 1 (length pts)" using l by simp
  show "r \<noteq> []" using l by auto
  then show "hd r = first" using t by (cases r) simp_all
qed

lemma unravel_section_effect:
  assumes "unravel_section eig H morph nm sid = Inr nm'"
  shows "length nm' = length nm"
    and "\<And>j. j \<noteq> sid \<Longrightarrow> nm' ! j = nm ! j"
    and "sid < length nm \<Longrightarrow> parent (nm' ! sid) = parent (nm ! sid)"
    and "sid < length nm \<Longrightarrow> points (nm' ! sid) \<noteq> []"
    and "sid < length nm \<Longrightarrow> length (points (nm' ! sid)) = max 1 (length (points (morph ! sid)))"
    and "sid < length nm \<Longrightarrow> parent (nm ! sid) = None \<Longrightarrow>
           points (nm ! sid) \<noteq> [] \<and> hd (points (nm' ! sid)) = hd (points (nm ! sid))"
    and "\<And>p. sid < length nm \<Longrightarrow> parent (nm ! sid) = Some p \<Longrightarrow>
           points (nm ! p) \<noteq> [] \<and> hd (points (nm' ! sid)) = last (points (nm ! p))"
    and "sid < length nm \<Longrightarrow>
           unravel_points eig H (points (morph ! sid)) (hd (points (nm' ! sid)))
             = Inr (points (nm' ! sid))"
proof -
  from assms obtain first r where
    f: "(if is_root (nm ! sid) then first_point (points (nm ! sid))
         else last_point (points (nm ! the (parent (nm ! sid))))) = Inr first"
    and u: "unravel_points eig H (points (morph ! sid)) first = Inr r"
    and n: "nm' = nm[sid := (nm ! sid)\<lparr>points := r\<rparr>]"
    by (auto simp: unravel_section_def Let_def split: sum.splits)
  note sh = unravel_points_shape[OF u]
  show "length nm' = length nm" using n by simp
  show "\<And>j. j \<noteq> sid \<Longrightarrow> nm' ! j = nm ! j" using n by simp
  show "sid < length nm \<Longrightarrow> parent (nm' ! sid) = parent (nm ! sid)" using n by simp
  show "sid < length nm \<Longrightarrow> points (nm' ! sid) \<noteq> []" using n sh by simp
  show "sid < length nm \<Longrightarrow> length (points (nm' ! sid)) = max 1 (length (points (morph ! sid)))"
    using n sh by simp
  show "sid < length nm \<Longrightarrow> parent (nm ! sid) = None \<Longrightarrow>
           points (nm ! sid) \<noteq> [] \<and> hd (points (nm' ! sid)) = hd (points (nm ! sid))"
    using n sh f by (auto simp: is_root_def first_point_def split: list.splits)
  show "\<And>p. sid < length nm \<Longrightarrow> parent (nm ! sid) = Some p \<Longrightarrow>
           points (nm ! p) \<noteq> [] \<and> hd (points (nm' ! sid)) = last (points (nm ! p))"
    using n sh f by (auto simp: is_root_def last_point_def split: if_splits)
  show "sid < length nm \<Longrightarrow>
           unravel_points eig H (points (morph ! sid)) (hd (points (nm' ! sid)))
             = Inr (points (nm' ! sid))"
    using n sh u by simp
qed

lemma unravel_sections_topology:
  "unravel_sections eig H morph nm rest = Inr out \<Longrightarrow>
     length out = length nm \<and>
     (\<forall>j<length nm. parent (out ! j) = parent (nm ! j)
        \<and> (j \<in> set rest \<longrightarrow> length (points (out ! j)) = max 1 (length (points (morph ! j))))
        \<and> (j \<notin> set rest \<longrightarrow> out ! j = nm ! j))"
proof (induction rest arbitrary: nm)
  case Nil
  then show ?case by simp
next
  case (Cons sid rest)
  from Cons.prems obtain nm1 where s: "unravel_section eig H morph nm sid = Inr nm1"
    and l: "unravel_sections eig H morph nm1 rest = Inr out"
    by (auto split: sum.splits)
  note e = unravel_section_effect[OF s]
  note ih = Cons.IH[OF l]
  have len: "length out = length nm" using ih e(1) by simp
  have "parent (out ! j) = parent (nm ! j)
        \<and> (j \<in> set (sid # rest) \<longrightarrow> length (points (out ! j)) = max 1 (length (points (morph ! j))))
        \<and> (j \<notin> set (sid # rest) \<longrightarrow> out ! j = nm ! j)" if j: "j < length nm" for j
  proof -
    have j1: "j < length nm1" using j e(1) by simp
    from ih j1 have a: "parent (out ! j) = parent (nm1 ! j)"
      and b: "j \<in> set rest \<Longrightarrow> length (points (out ! j)) = max 1 (length (points (morph ! j)))"
      and c: "j \<notin> set rest \<Longrightarrow> out ! j = nm1 ! j" by blast+
    have p: "parent (nm1 ! j) = parent (nm ! j)"
      using e(2)[of j] e(3) j by (cases "j = sid") simp_all
    have d: "j = sid \<Longrightarrow> j \<notin> set rest \<Longrightarrow> length (points (out ! j)) = max 1 (length (points (morph ! j)))"
      using c e(5) j by simp
    have f: "j \<noteq> sid \<Longrightarrow> j \<notin> set rest \<Longrightarrow> out ! j = nm ! j"
      using c e(2)[of j] by simp
    show ?thesis using a p b d f by auto
  qed
  then show ?case using len by blast
qed

lemma unravel_sections_connected:
  "parents_first morph seen rest \<Longrightarrow>
   unravel_sections eig H morph nm rest = Inr out \<Longrightarrow>
   length nm = length morph \<Longrightarrow>
   (\<forall>j<length morph. parent (nm ! j) = parent (morph ! j)) \<Longrightarrow>
   (\<forall>j<length morph. j \<notin> set seen \<longrightarrow> nm ! j = morph ! j) \<Longrightarrow>
     (\<forall>s \<in> set seen. out ! s = nm ! s) \<and>
     (\<forall>s \<in> set rest. points (out ! s) \<noteq> []
        \<and> unravel_points eig H (points (morph ! s)) (hd (points (out ! s))) = Inr (points (out ! s))
        \<and> (parent (morph ! s) = None \<longrightarrow>
              points (morph ! s) \<noteq> [] \<and> hd (points (out ! s)) = hd (points (morph ! s)))
        \<and> (\<forall>p. parent (morph ! s) = Some p \<longrightarrow>
              points (out ! p) \<noteq> [] \<and> hd (points (out ! s)) = last (points (out ! p))))"
proof (induction rest arbitrary: nm seen)
  case Nil
  then show ?case by simp
next
  case (Cons sid rest)
  from Cons.prems(2) obtain nm1 where s: "unravel_section eig H morph nm sid = Inr nm1"
    and l: "unravel_sections eig H morph nm1 rest = Inr out"
    by (auto split: sum.splits)
  from Cons.prems(1) have sid: "sid < length morph" and fresh: "sid \<notin> set seen"
    and par: "\<And>p. parent (morph ! sid) = Some p \<Longrightarrow> p \<in> set seen"
    and pf: "parents_first morph (seen @ [sid]) rest"
    by (auto split: option.splits)
  have sidn: "sid < length nm" using sid Cons.prems(3) by simp
  note e = unravel_section_effect[OF s]
  have same: "nm ! sid = morph ! sid" using Cons.prems(5) sid fresh by simp
  have l1: "length nm1 = length morph" using e(1) Cons.prems(3) by simp
  have p1: "\<forall>j<length morph. parent (nm1 ! j) = parent (morph ! j)"
  proof (intro allI impI)
    fix j assume "j < length morph"
    then show "parent (nm1 ! j) = parent (morph ! j)"
      using e(2)[of j] e(3)[OF sidn] Cons.prems(4) by (cases "j = sid") simp_all
  qed
  have u1: "\<forall>j<length morph. j \<notin> set (seen @ [sid]) \<longrightarrow> nm1 ! j = morph ! j"
    using e(2) Cons.prems(5) by simp
  note ih = Cons.IH[OF pf l l1 p1 u1]
  from ih have keep: "\<And>s. s \<in> set (seen @ [sid]) \<Longrightarrow> out ! s = nm1 ! s" by blast
  have seen_keep: "\<forall>s \<in> set seen. out ! s = nm ! s"
  proof
    fix s assume a: "s \<in> set seen"
    then have "s \<noteq> sid" using fresh by blast
    then show "out ! s = nm ! s" using keep[of s] a e(2)[of s] by simp
  qed
  have o: "out ! sid = nm1 ! sid" using keep[of sid] by simp
  have here: "points (out ! sid) \<noteq> []
        \<and> unravel_points eig H (points (morph ! sid)) (hd (points (out ! sid))) = Inr (points (out ! sid))
        \<and> (parent (morph ! sid) = None \<longrightarrow>
              points (morph ! sid) \<noteq> [] \<and> hd (points (out ! sid)) = hd (points (morph ! sid)))
        \<and> (\<forall>p. parent (morph ! sid) = Some p \<longrightarrow>
              points (out ! p) \<noteq> [] \<and> hd (points (out ! sid)) = last (points (out ! p)))"
  proof (intro conjI impI allI)
    show "points (out ! sid) \<noteq> []" using o e(4)[OF sidn] by simp
  next
    show "unravel_points eig H (points (morph ! sid)) (hd (points (out ! sid))) = Inr (points (out ! sid))"
      using o e(8)[OF sidn] by simp
  next
    assume r: "parent (morph ! sid) = None"
    then have "parent (nm ! sid) = None" using same by simp
    from e(6)[OF sidn this] show "points (morph ! sid) \<noteq> []" using same by simp
  next
    assume r: "parent (morph ! sid) = None"
    then have "parent (nm ! sid) = None" using same by simp
    from e(6)[OF sidn this] show "hd (points (out ! sid)) = hd (points (morph ! sid))"
      using same o by simp
  next
    fix p assume r: "parent (morph ! sid) = Some p"
    then have q: "parent (nm ! sid) = Some p" using same by simp
    have "out ! p = nm ! p" using seen_keep par[OF r] by blast
    with e(7)[OF sidn q] show "points (out ! p) \<noteq> []" by simp
  next
    fix p assume r: "parent (morph ! sid) = Some p"
    then have q: "parent (nm ! sid) = Some p" using same by simp
    have "out ! p = nm ! p" using seen_keep par[OF r] by blast
    with e(7)[OF sidn q] show "hd (points (out ! sid)) = last (points (out ! p))"
      using o by simp
  qed
  have "\<forall>s \<in> set (sid # rest). points (out ! s) \<noteq> []
        \<and> unravel_points eig H (points (morph ! s)) (hd (points (out ! s))) = Inr (points (out ! s))
        \<and> (parent (morph ! s) = None \<longrightarrow>
              points (morph ! s) \<noteq> [] \<and> hd (points (out ! s)) = hd (points (morph ! s)))
        \<and> (\<forall>p. parent (morph ! s) = Some p \<longrightarrow>
              points (out ! p) \<noteq> [] \<and> hd (points (out ! s)) = last (points (out ! p)))"
    using here ih by simp
  then show ?case using seen_keep by blast
qed

section \<open>Principal directions of diagonal and of rank-one covariance matrices\<close>

lemma get_principal_direction_covariance:
  "get_principal_direction eig X = column (snd (eig (covariance X))) (argmax (fst (eig (covariance X))))"
  by (simp add: get_principal_direction_def covariance_def Let_def split: prod.splits)

lemma is_principal_diagonal:
  assumes "is_principal (Mat (Vec a 0 0) (Vec 0 b 0) (Vec 0 0 c)) d" "b < a" "c < a"
  shows "\<exists>k. k \<noteq> 0 \<and> d = Vec k 0 0"
proof -
  let ?C = "Mat (Vec a 0 0) (Vec 0 b 0) (Vec 0 0 c)"
  from assms(1) obtain lam where nz: "d \<noteq> vzero"
    and ev: "mat_vec ?C d = scale lam d"
    and mx: "\<And>u mu. u \<noteq> vzero \<Longrightarrow> mat_vec ?C u = scale mu u \<Longrightarrow> mu \<le> lam"
    unfolding is_principal_def by blast
  have "mat_vec ?C (Vec 1 0 0) = scale a (Vec 1 0 0)" by (simp add: mat_vec_def)
  moreover have "Vec 1 0 0 \<noteq> vzero" by (simp add: vzero_def)
  ultimately have al: "a \<le> lam" using mx by blast
  obtain x y z where d: "d = Vec x y z" by (cases d)
  from ev d have "b * y = y * lam" "c * z = z * lam" by (simp_all add: mat_vec_def)
  then have "y * (lam - b) = 0" "z * (lam - c) = 0" by (auto simp: algebra_simps)
  moreover have "lam - b \<noteq> 0" "lam - c \<noteq> 0" using al assms(2,3) by simp_all
  ultimately have "y = 0" "z = 0" by simp_all
  moreover from this nz d have "x \<noteq> 0" by (simp add: vzero_def)
  ultimately show ?thesis using d by blast
qed

lemma is_principal_unit_x:
  assumes "b \<le> a" "c \<le> a"
  shows "is_principal (Mat (Vec a 0 0) (Vec 0 b 0) (Vec 0 0 c)) (Vec 1 0 0)"
proof -
  let ?C = "Mat (Vec a 0 0) (Vec 0 b 0) (Vec 0 0 c)"
  have "mu \<le> a" if u: "u \<noteq> vzero" and e: "mat_vec ?C u = scale mu u" for u mu
  proof -
    obtain x y z where v: "u = Vec x y z" by (cases u)
    from e v have "x * (a - mu) = 0" "y * (b - mu) = 0" "z * (c - mu) = 0"
      by (simp_all add: mat_vec_def algebra_simps)
    moreover from u v have "x \<noteq> 0 \<or> y \<noteq> 0 \<or> z \<noteq> 0" by (simp add: vzero_def)
    ultimately have "mu = a \<or> mu = b \<or> mu = c" by auto
    then show ?thesis using assms by auto
  qed
  moreover have "mat_vec ?C (Vec 1 0 0) = scale a (Vec 1 0 0)" by (simp add: mat_vec_def)
  moreover have "Vec 1 0 0 \<noteq> vzero" by (simp add: vzero_def)
  ultimately show ?thesis unfolding is_principal_def by blast
qed

lemma eig_diagonal_direction:
  assumes "covariance X = Mat (Vec a 0 0) (Vec 0 b 0) (Vec 0 0 c)" "b \<le> a" "c \<le> a"
  shows "get_principal_direction eig_diagonal X = Vec 1 0 0"
  using assms by (simp add: get_principal_direction_covariance eig_diagonal_def argmax_def column_def)

lemma eig_diagonal_exact:
  assumes "covariance X = Mat (Vec a 0 0) (Vec 0 b 0) (Vec 0 0 c)" "b \<le> a" "c \<le> a"
  shows "eig_exact_on eig_diagonal X"
  unfolding eig_exact_on_def eig_diagonal_direction[OF assms] assms(1)
  by (rule is_principal_unit_x[OF assms(2,3)])

lemma argmax_cases:
  "(argmax w = 0 \<and> vy w \<le> vx w \<and> vz w \<le> vx w)
   \<or> (argmax w = 1 \<and> vx w \<le> vy w \<and> vz w \<le> vy w)
   \<or> (argmax w = 2 \<and> vx w \<le> vz w \<and> vy w \<le> vz w)"
  by (auto simp: argmax_def)

text \<open>
  A solver that keeps its contract on the covariance matrix makes \<open>_get_principal_direction\<close>
  return a principal direction: the eigenvalue chosen by \<open>argmax\<close> is the largest, and the
  column taken is its eigenvector.
\<close>

lemma sound_solver_gives_principal_direction:
  assumes "eig_sound eig (covariance X)"
  shows "eig_exact_on eig X"
proof -
  let ?C = "covariance X"
  obtain w v where wv: "eig ?C = (w, v)" by (cases "eig ?C")
  let ?c0 = "Vec (vx (row0 v)) (vx (row1 v)) (vx (row2 v))"
  let ?c1 = "Vec (vy (row0 v)) (vy (row1 v)) (vy (row2 v))"
  let ?c2 = "Vec (vz (row0 v)) (vz (row1 v)) (vz (row2 v))"
  from assms wv have p0: "?c0 \<noteq> vzero" "mat_vec ?C ?c0 = scale (vx w) ?c0"
    and p1: "?c1 \<noteq> vzero" "mat_vec ?C ?c1 = scale (vy w) ?c1"
    and p2: "?c2 \<noteq> vzero" "mat_vec ?C ?c2 = scale (vz w) ?c2"
    by (simp_all add: eig_sound_def eigenpairs_def)
  from assms wv have all: "\<And>u mu. u \<noteq> vzero \<Longrightarrow> mat_vec ?C u = scale mu u \<Longrightarrow>
      mu = vx w \<or> mu = vy w \<or> mu = vz w"
    by (auto simp: eig_sound_def eigenpairs_def)
  have d: "get_principal_direction eig X = column v (argmax w)"
    by (simp add: get_principal_direction_covariance wv)
  from argmax_cases[of w] show ?thesis
  proof (elim disjE conjE)
    assume a: "argmax w = 0" "vy w \<le> vx w" "vz w \<le> vx w"
    have "\<And>u mu. u \<noteq> vzero \<and> mat_vec ?C u = scale mu u \<longrightarrow> mu \<le> vx w"
      using all a(2,3) by fastforce
    then show ?thesis
      unfolding eig_exact_on_def is_principal_def d a(1) using p0 by (auto simp: column_def)
  next
    assume a: "argmax w = 1" "vx w \<le> vy w" "vz w \<le> vy w"
    have "\<And>u mu. u \<noteq> vzero \<and> mat_vec ?C u = scale mu u \<longrightarrow> mu \<le> vy w"
      using all a(2,3) by fastforce
    then show ?thesis
      unfolding eig_exact_on_def is_principal_def d a(1) using p1 by (auto simp: column_def)
  next
    assume a: "argmax w = 2" "vx w \<le> vz w" "vy w \<le> vz w"
    have "\<And>u mu. u \<noteq> vzero \<and> mat_vec ?C u = scale mu u \<longrightarrow> mu \<le> vz w"
      using all a(2,3) by fastforce
    then show ?thesis
      unfolding eig_exact_on_def is_principal_def d a(1) using p2 by (auto simp: column_def)
  qed
qed

lemma exact_direction_x:
  assumes "eig_exact_on eig X" "covariance X = Mat (Vec a 0 0) (Vec 0 b 0) (Vec 0 0 c)" "b < a" "c < a"
  shows "\<exists>k. k \<noteq> 0 \<and> get_principal_direction eig X = Vec k 0 0"
  using assms(1) is_principal_diagonal[OF _ assms(3,4)] unfolding eig_exact_on_def assms(2) by blast

lemma np_norm_x: "np_norm (Vec k 0 0) = \<bar>k\<bar>"
  by (simp add: np_norm_def)

lemma pointed_rescaled_x:
  assumes "k \<noteq> 0"
  shows "pointed s (rescaled s (Vec k 0 0)) = Vec (np_sign (vx s) * np_norm s) 0 0"
proof -
  obtain a b c where s: "s = Vec a b c" by (cases s)
  let ?n = "np_norm s"
  have n0: "0 \<le> ?n" by (rule np_norm_nonneg)
  have r: "rescaled s (Vec k 0 0) = Vec (k * (?n / \<bar>k\<bar>)) 0 0"
    by (simp add: rescaled_def np_norm_x)
  have dt: "np_dot s (Vec (k * (?n / \<bar>k\<bar>)) 0 0) = a * (k * (?n / \<bar>k\<bar>))"
    using s by simp
  have "np_sign (a * (k * (?n / \<bar>k\<bar>))) * (k * (?n / \<bar>k\<bar>)) = np_sign a * ?n"
  proof (cases "?n = 0")
    case True
    then show ?thesis by simp
  next
    case False
    then have pos: "0 < ?n / \<bar>k\<bar>" using n0 assms by simp
    have "a * (k * (?n / \<bar>k\<bar>)) = (a * k) * (?n / \<bar>k\<bar>)" by simp
    then have sg: "np_sign (a * (k * (?n / \<bar>k\<bar>))) = np_sign (a * k)"
      using np_sign_mult_pos[OF pos, of "a * k"] by (simp only:)
    have fl: "np_sign (a * k) * (k / \<bar>k\<bar>) = np_sign a"
      using assms by (auto simp: np_sign_def zero_less_mult_iff mult_less_0_iff not_less
          dest: order.antisym)
    have "np_sign (a * (k * (?n / \<bar>k\<bar>))) * (k * (?n / \<bar>k\<bar>))
            = np_sign (a * k) * (k * (?n / \<bar>k\<bar>))"
      by (simp only: sg)
    also have "\<dots> = (np_sign (a * k) * (k / \<bar>k\<bar>)) * ?n" by simp
    also have "\<dots> = np_sign a * ?n" by (simp only: fl)
    finally show ?thesis .
  qed
  then have key: "(k * (?n / \<bar>k\<bar>)) * np_sign (a * (k * (?n / \<bar>k\<bar>))) = np_sign a * ?n"
    by (simp only: mult.commute)
  have "pointed s (Vec (k * (?n / \<bar>k\<bar>)) 0 0)
          = Vec ((k * (?n / \<bar>k\<bar>)) * np_sign (np_dot s (Vec (k * (?n / \<bar>k\<bar>)) 0 0))) 0 0"
    by (simp add: pointed_def)
  also have "\<dots> = Vec (np_sign a * ?n) 0 0"
    by (simp only: dt key)
  finally show ?thesis
    unfolding r using s by simp
qed

lemma unravel_step_x:
  assumes "get_principal_direction eig (window H pts wc) = Vec k 0 0" "k \<noteq> 0"
  shows "unravel_step eig H pts acc wc =
           Inr (acc @ [vadd (Vec (np_sign (vx (vsub (pts ! wc) (pts ! (wc - 1))))
                                  * np_norm (vsub (pts ! wc) (pts ! (wc - 1)))) 0 0)
                            (acc ! (wc - 1))])"
  using assms by (simp add: unravel_step_def Let_def np_norm_x pointed_rescaled_x)

section \<open>What the rescaling and the sign step do when the dot product is not zero\<close>

lemma np_sign_mult_self: "np_sign x * x = \<bar>x\<bar>"
  by (simp add: np_sign_def)

lemma pointed_dot_nonneg: "0 \<le> np_dot s (pointed s r)"
  by (simp add: pointed_def np_dot_scale np_sign_mult_self)

lemma pointed_keeps_or_flips:
  assumes "np_dot s r \<noteq> 0"
  shows "pointed s r = (if 0 < np_dot s r then r else scale (- 1) r)"
  using assms by (simp add: pointed_def np_sign_def scale_one)

lemma vsub_vadd: "vsub (vadd d p) p = d"
  by (cases d; cases p) simp

lemma unravel_loop_nth:
  assumes "unravel_loop eig H pts acc [n..<m] = Inr r" "length acc = n" "1 \<le> n" "n \<le> i" "i < m"
  shows "r ! i = vadd (pointed (vsub (pts ! i) (pts ! (i - 1)))
                        (rescaled (vsub (pts ! i) (pts ! (i - 1)))
                           (get_principal_direction eig (window H pts i))))
                      (r ! (i - 1))
       \<and> np_norm (get_principal_direction eig (window H pts i)) \<noteq> 0"
  using assms
proof (induction "m - n" arbitrary: n acc)
  case 0
  then show ?case by simp
next
  case (Suc k)
  from Suc.prems(4,5) have nm: "n < m" by simp
  then have u: "[n..<m] = n # [Suc n..<m]" by (rule upt_conv_Cons)
  from Suc.prems(1) obtain acc' where s: "unravel_step eig H pts acc n = Inr acc'"
    and l: "unravel_loop eig H pts acc' [Suc n..<m] = Inr r"
    unfolding u by (auto split: sum.splits)
  note st = unravel_step_Inr[OF s]
  have la: "length acc' = Suc n" using st(1) Suc.prems(2) by simp
  show ?case
  proof (cases "i = n")
    case True
    from unravel_loop_prefix[OF l] have t: "take (length acc') r = acc'" by simp
    have "r ! n = take (length acc') r ! n" using la by simp
    then have rn: "r ! n = acc' ! n" using t by simp
    have "r ! (n - 1) = take (length acc') r ! (n - 1)" using la by simp
    then have "r ! (n - 1) = acc' ! (n - 1)" using t by simp
    then have rp: "r ! (n - 1) = acc ! (n - 1)"
      using st(1) Suc.prems(2,3) by (simp add: nth_append)
    have "acc' ! n = vadd (pointed (vsub (pts ! n) (pts ! (n - 1)))
                        (rescaled (vsub (pts ! n) (pts ! (n - 1)))
                           (get_principal_direction eig (window H pts n))))
                      (acc ! (n - 1))"
      using st(1) Suc.prems(2) by (simp add: nth_append)
    then show ?thesis using True rn rp st(2) by simp
  next
    case False
    have k: "k = m - Suc n" using Suc.hyps(2) by simp
    show ?thesis
      by (rule Suc.hyps(1)[OF k l la]) (use False Suc.prems in simp_all)
  qed
qed

text \<open>
  Where the dot product of the segment and the rescaled direction is not zero, the output
  segment is as long as the input segment.
\<close>

lemma segment_length_preserved:
  assumes "unravel_points eig H pts first = Inr r" "1 \<le> i" "i < length pts"
    and "np_dot (vsub (pts ! i) (pts ! (i - 1)))
           (rescaled (vsub (pts ! i) (pts ! (i - 1)))
              (get_principal_direction eig (window H pts i))) \<noteq> 0"
  shows "np_norm (vsub (r ! i) (r ! (i - 1))) = np_norm (vsub (pts ! i) (pts ! (i - 1)))"
proof -
  from unravel_loop_nth[OF assms(1)[unfolded unravel_points_def] _ _ assms(2,3)]
  have e: "r ! i = vadd (pointed (vsub (pts ! i) (pts ! (i - 1)))
                        (rescaled (vsub (pts ! i) (pts ! (i - 1)))
                           (get_principal_direction eig (window H pts i))))
                      (r ! (i - 1))"
    and n: "np_norm (get_principal_direction eig (window H pts i)) \<noteq> 0"
    by simp_all
  show ?thesis
    unfolding e vsub_vadd by (rule norm_pointed_rescaled[OF n assms(4)])
qed

section \<open>The window that the loop hands to the estimator\<close>

lemma covariance_first_pair:
  "covariance [Vec 0 0 0, Vec 0 10 0] = Mat (Vec 0 0 0) (Vec 0 50 0) (Vec 0 0 0)"
  by (simp add: covariance_def np_mean_def np_dot_XT_X_def entry_def)

lemma eig_diagonal_first_pair:
  "get_principal_direction eig_diagonal [Vec 0 0 0, Vec 0 10 0] = Vec 0 1 0"
  by (simp add: get_principal_direction_covariance covariance_first_pair eig_diagonal_def
      argmax_def column_def)

text \<open>
  C4. For a point index \<open>i\<close> with \<open>1 \<le> i < point_count\<close> and a half-window length
  \<open>H \<ge> 0\<close>, the iteration of the loop for segment \<open>i - 1 \<rightarrow> i\<close> runs the estimator on the
  original points at the indices from \<open>max(0, i - H - 1)\<close> up to, but excluding,
  \<open>min(point_count, i + H + 1)\<close>, and on nothing else; point \<open>i\<close> of an unravelled section
  is built from that direction. Each of these indices is below \<open>point_count\<close>, and for
  \<open>H = 0\<close> the points are the two at \<open>i - 1\<close> and \<open>i\<close>.
\<close>

theorem loop_estimates_from_clamped_window:
  assumes "1 \<le> i" "i < length pts" "0 \<le> H"
  shows "unravel_step eig H pts acc i =
           (if np_norm (get_principal_direction eig
                 (map ((!) pts) [nat (max 0 (int i - H - 1)) ..<
                                 nat (min (int (length pts)) (int i + H + 1))])) = 0
            then Inl NonFinite
            else Inr (acc @
              [vadd (pointed (vsub (pts ! i) (pts ! (i - 1)))
                       (rescaled (vsub (pts ! i) (pts ! (i - 1)))
                          (get_principal_direction eig
                             (map ((!) pts) [nat (max 0 (int i - H - 1)) ..<
                                             nat (min (int (length pts)) (int i + H + 1))]))))
                    (acc ! (i - 1))]))
       \<and> (unravel_points eig H pts first = Inr r \<longrightarrow>
            r ! i = vadd (pointed (vsub (pts ! i) (pts ! (i - 1)))
                            (rescaled (vsub (pts ! i) (pts ! (i - 1)))
                               (get_principal_direction eig
                                  (map ((!) pts) [nat (max 0 (int i - H - 1)) ..<
                                                  nat (min (int (length pts)) (int i + H + 1))]))))
                         (r ! (i - 1)))
       \<and> (\<forall>k \<in> set [nat (max 0 (int i - H - 1)) ..< nat (min (int (length pts)) (int i + H + 1))].
             k < length pts)
       \<and> (H = 0 \<longrightarrow>
            map ((!) pts) [nat (max 0 (int i - H - 1)) ..<
                           nat (min (int (length pts)) (int i + H + 1))]
              = [pts ! (i - 1), pts ! i])"
proof (intro conjI impI)
  note w = window_eq[OF assms]
  show "unravel_step eig H pts acc i =
           (if np_norm (get_principal_direction eig
                 (map ((!) pts) [nat (max 0 (int i - H - 1)) ..<
                                 nat (min (int (length pts)) (int i + H + 1))])) = 0
            then Inl NonFinite
            else Inr (acc @
              [vadd (pointed (vsub (pts ! i) (pts ! (i - 1)))
                       (rescaled (vsub (pts ! i) (pts ! (i - 1)))
                          (get_principal_direction eig
                             (map ((!) pts) [nat (max 0 (int i - H - 1)) ..<
                                             nat (min (int (length pts)) (int i + H + 1))]))))
                    (acc ! (i - 1))]))"
    unfolding w[symmetric] by (simp add: unravel_step_def Let_def)
next
  assume u: "unravel_points eig H pts first = Inr r"
  from unravel_loop_nth[OF u[unfolded unravel_points_def] _ _ assms(1,2)]
  show "r ! i = vadd (pointed (vsub (pts ! i) (pts ! (i - 1)))
                            (rescaled (vsub (pts ! i) (pts ! (i - 1)))
                               (get_principal_direction eig
                                  (map ((!) pts) [nat (max 0 (int i - H - 1)) ..<
                                                  nat (min (int (length pts)) (int i + H + 1))]))))
                         (r ! (i - 1))"
    unfolding window_eq[OF assms, symmetric] by simp
next
  show "\<forall>k \<in> set [nat (max 0 (int i - H - 1)) ..< nat (min (int (length pts)) (int i + H + 1))].
             k < length pts"
    using assms(2) by auto
next
  assume H0: "H = 0"
  have a: "nat (max 0 (int i - H - 1)) = i - 1" using H0 assms(1) by simp
  have b: "nat (min (int (length pts)) (int i + H + 1)) = Suc i" using H0 assms(2) by simp
  show "map ((!) pts) [nat (max 0 (int i - H - 1)) ..<
                       nat (min (int (length pts)) (int i + H + 1))]
          = [pts ! (i - 1), pts ! i]"
    unfolding a b upt_pair[OF assms(1)] by simp
qed

theorem loop_estimates_from_clamped_window_witness:
  "unravel_step eig_diagonal 0 [Vec 0 0 0, Vec 0 10 0, Vec 12 5 0] [Vec 0 0 0] 1
     = Inr [Vec 0 0 0, Vec 0 10 0]"
proof -
  note t = loop_estimates_from_clamped_window[of 1 "[Vec 0 0 0, Vec 0 10 0, Vec 12 5 0]" 0
      eig_diagonal "[Vec 0 0 0]" "Vec 0 0 0" "[]"]
  have pre: "(1::nat) \<le> 1" "1 < length [Vec 0 0 0, Vec 0 10 0, Vec 12 5 0]" "(0::int) \<le> 0"
    by simp_all
  from t[OF pre, THEN conjunct2, THEN conjunct2, THEN conjunct2]
  have w: "map ((!) [Vec 0 0 0, Vec 0 10 0, Vec 12 5 0])
             [nat (max 0 (int 1 - 0 - 1)) ..<
              nat (min (int (length [Vec 0 0 0, Vec 0 10 0, Vec 12 5 0])) (int 1 + 0 + 1))]
           = [Vec 0 0 0, Vec 0 10 0]"
    by simp
  have n: "np_norm (Vec 0 1 0) = 1" by (simp add: np_norm_def)
  have o: "pointed (Vec 0 10 0) (rescaled (Vec 0 10 0) (Vec 0 1 0)) = Vec 0 10 0"
    by (simp add: pointed_def rescaled_def np_norm_def np_sign_def sqrt_100)
  show ?thesis
    unfolding t[OF pre, THEN conjunct1] w eig_diagonal_first_pair n
    using o by simp
qed

section \<open>A segment orthogonal to the principal direction of its window\<close>

lemma covariance_bent:
  "covariance [Vec 0 0 0, Vec 0 10 0, Vec 12 5 0] = Mat (Vec 96 0 0) (Vec 0 50 0) (Vec 0 0 0)"
  by (simp add: covariance_def np_mean_def np_dot_XT_X_def entry_def)

lemma window_bent:
  assumes "1 \<le> H"
  shows "window H [Vec 0 0 0, Vec 0 10 0, Vec 12 5 0] 1 = [Vec 0 0 0, Vec 0 10 0, Vec 12 5 0]"
    and "window H [Vec 0 0 0, Vec 0 10 0, Vec 12 5 0] 2 = [Vec 0 0 0, Vec 0 10 0, Vec 12 5 0]"
  using assms by (simp_all add: window_def window_start_def window_end_def py_slice_def clip_bound_def)

lemma unravel_points_bent:
  assumes "eig_exact_on eig [Vec 0 0 0, Vec 0 10 0, Vec 12 5 0]" "1 \<le> H"
  shows "unravel_points eig H [Vec 0 0 0, Vec 0 10 0, Vec 12 5 0] (Vec 0 0 0)
           = Inr [Vec 0 0 0, Vec 0 0 0, Vec 13 0 0]"
proof -
  let ?P = "[Vec 0 0 0, Vec 0 10 0, Vec 12 5 0]"
  from exact_direction_x[OF assms(1) covariance_bent] obtain k where k: "k \<noteq> 0"
    and d: "get_principal_direction eig ?P = Vec k 0 0" by auto
  have s1: "unravel_step eig H ?P [Vec 0 0 0] 1 = Inr [Vec 0 0 0, Vec 0 0 0]"
    using unravel_step_x[of eig H ?P 1 k "[Vec 0 0 0]"] d k window_bent(1)[OF assms(2)]
    by (simp add: np_sign_def)
  have s2: "unravel_step eig H ?P [Vec 0 0 0, Vec 0 0 0] 2 = Inr [Vec 0 0 0, Vec 0 0 0, Vec 13 0 0]"
    using unravel_step_x[of eig H ?P 2 k "[Vec 0 0 0, Vec 0 0 0]"] d k window_bent(2)[OF assms(2)]
    by (simp add: np_sign_def np_norm_def sqrt_169)
  show ?thesis
    using s1 s2 by (simp add: unravel_points_def numeral_2_eq_2)
qed

lemma unravel_single_root:
  assumes "unravel_points eig H (p # ps) p = Inr r"
  shows "unravel eig H [0] [\<lparr>points = p # ps, parent = None\<rparr>] = Inr [\<lparr>points = r, parent = None\<rparr>]"
  using assms by (simp add: unravel_def unravel_section_def is_root_def first_point_def)

text \<open>
  C1. The claim that every output segment is as long as the input segment fails on the code.
  Input: one root section with the points (0,0,0), (0,10,0), (12,5,0) and a half-window
  length of at least 1, so that the window of either segment is the whole section. The
  covariance matrix of the section is diagonal with the entries 96, 50, 0, and its
  principal direction is the x axis. The first segment, (0,10,0), is orthogonal to it:
  the sign of the dot product is 0, the direction is multiplied by 0, and the output is
  (0,0,0), (0,0,0), (13,0,0). The first output segment has length 0, the input segment
  has length 10.
\<close>

theorem orthogonal_segment_loses_its_length:
  assumes "eig_exact_on eig [Vec 0 0 0, Vec 0 10 0, Vec 12 5 0]" "1 \<le> H"
  shows "unravel eig H [0] [\<lparr>points = [Vec 0 0 0, Vec 0 10 0, Vec 12 5 0], parent = None\<rparr>]
           = Inr [\<lparr>points = [Vec 0 0 0, Vec 0 0 0, Vec 13 0 0], parent = None\<rparr>]
       \<and> np_norm (vsub (Vec 0 0 0) (Vec 0 0 0)) = 0
       \<and> np_norm (vsub (Vec 0 10 0) (Vec 0 0 0)) = 10"
  using unravel_single_root[OF unravel_points_bent[OF assms]]
  by (simp add: np_norm_def sqrt_100)

theorem orthogonal_segment_loses_its_length_witness:
  "unravel eig_diagonal 5 [0] [\<lparr>points = [Vec 0 0 0, Vec 0 10 0, Vec 12 5 0], parent = None\<rparr>]
     = Inr [\<lparr>points = [Vec 0 0 0, Vec 0 0 0, Vec 13 0 0], parent = None\<rparr>]"
  using orthogonal_segment_loses_its_length[of eig_diagonal 5]
    eig_diagonal_exact[OF covariance_bent]
  by simp

text \<open>
  C3. The sign-resolution step multiplies the rescaled direction by \<open>np.sign\<close> of its dot
  product with the segment, and \<open>np.sign(0)\<close> is 0. On the first segment of the section
  (0,0,0), (0,10,0), (12,5,0) the dot product is 0: the rescaled direction is not the zero
  vector, but the offset that is appended is, so the new point is the previous point.
\<close>

theorem sign_step_zeroes_orthogonal_direction:
  assumes "eig_exact_on eig [Vec 0 0 0, Vec 0 10 0, Vec 12 5 0]" "1 \<le> H"
  shows "np_dot (Vec 0 10 0)
           (rescaled (Vec 0 10 0)
              (get_principal_direction eig (window H [Vec 0 0 0, Vec 0 10 0, Vec 12 5 0] 1))) = 0
       \<and> rescaled (Vec 0 10 0)
            (get_principal_direction eig (window H [Vec 0 0 0, Vec 0 10 0, Vec 12 5 0] 1)) \<noteq> vzero
       \<and> pointed (Vec 0 10 0)
            (rescaled (Vec 0 10 0)
               (get_principal_direction eig (window H [Vec 0 0 0, Vec 0 10 0, Vec 12 5 0] 1))) = vzero
       \<and> unravel_step eig H [Vec 0 0 0, Vec 0 10 0, Vec 12 5 0] [Vec 0 0 0] 1
           = Inr [Vec 0 0 0, Vec 0 0 0]"
proof -
  let ?P = "[Vec 0 0 0, Vec 0 10 0, Vec 12 5 0]"
  from exact_direction_x[OF assms(1) covariance_bent] obtain k where k: "k \<noteq> 0"
    and d: "get_principal_direction eig ?P = Vec k 0 0" by auto
  have r: "rescaled (Vec 0 10 0) (Vec k 0 0) = Vec (k * (10 / \<bar>k\<bar>)) 0 0"
    by (simp add: rescaled_def np_norm_def sqrt_100)
  have a: "np_dot (Vec 0 10 0) (Vec (k * (10 / \<bar>k\<bar>)) 0 0) = 0" by simp
  have b: "Vec (k * (10 / \<bar>k\<bar>)) 0 0 \<noteq> vzero" using k by (simp add: vzero_def)
  have c: "pointed (Vec 0 10 0) (Vec (k * (10 / \<bar>k\<bar>)) 0 0) = vzero"
    by (rule pointed_orthogonal[OF a])
  have s: "unravel_step eig H ?P [Vec 0 0 0] 1 = Inr [Vec 0 0 0, Vec 0 0 0]"
    using unravel_step_x[of eig H ?P 1 k "[Vec 0 0 0]"] d k window_bent(1)[OF assms(2)]
    by (simp add: np_sign_def)
  show ?thesis
    unfolding window_bent(1)[OF assms(2)] d r using a b c s by blast
qed

theorem sign_step_zeroes_orthogonal_direction_witness:
  "pointed (Vec 0 10 0)
     (rescaled (Vec 0 10 0)
        (get_principal_direction eig_diagonal (window 5 [Vec 0 0 0, Vec 0 10 0, Vec 12 5 0] 1))) = vzero
   \<and> rescaled (Vec 0 10 0)
        (get_principal_direction eig_diagonal (window 5 [Vec 0 0 0, Vec 0 10 0, Vec 12 5 0] 1)) = Vec 10 0 0"
proof -
  have e: "eig_exact_on eig_diagonal [Vec 0 0 0, Vec 0 10 0, Vec 12 5 0]"
    by (rule eig_diagonal_exact[OF covariance_bent]) simp_all
  have w: "window 5 [Vec 0 0 0, Vec 0 10 0, Vec 12 5 0] 1 = [Vec 0 0 0, Vec 0 10 0, Vec 12 5 0]"
    by (rule window_bent(1)) simp
  have d: "get_principal_direction eig_diagonal [Vec 0 0 0, Vec 0 10 0, Vec 12 5 0] = Vec 1 0 0"
    by (rule eig_diagonal_direction[OF covariance_bent]) simp_all
  have r: "rescaled (Vec 0 10 0) (Vec 1 0 0) = Vec 10 0 0"
    by (simp add: rescaled_def np_norm_def sqrt_100)
  show ?thesis
    using sign_step_zeroes_orthogonal_direction[OF e, of 5] unfolding w d r by simp
qed

section \<open>Sections on a straight line\<close>

lemma covariance_line3:
  "covariance [Vec 0 0 0, Vec 1 0 0, Vec 2 0 0] = Mat (Vec 2 0 0) (Vec 0 0 0) (Vec 0 0 0)"
  "covariance [Vec 1 0 0, Vec 2 0 0, Vec 3 0 0] = Mat (Vec 2 0 0) (Vec 0 0 0) (Vec 0 0 0)"
  by (simp_all add: covariance_def np_mean_def np_dot_XT_X_def entry_def)

lemma covariance_line4:
  "covariance [Vec 0 0 0, Vec 1 0 0, Vec 2 0 0, Vec 3 0 0] = Mat (Vec 5 0 0) (Vec 0 0 0) (Vec 0 0 0)"
  by (simp add: covariance_def np_mean_def np_dot_XT_X_def entry_def)

lemma window_line:
  "window 1 [Vec 0 0 0, Vec 1 0 0, Vec 2 0 0, Vec 3 0 0] 1 = [Vec 0 0 0, Vec 1 0 0, Vec 2 0 0]"
  "window 1 [Vec 0 0 0, Vec 1 0 0, Vec 2 0 0, Vec 3 0 0] 2 = [Vec 0 0 0, Vec 1 0 0, Vec 2 0 0, Vec 3 0 0]"
  "window 1 [Vec 0 0 0, Vec 1 0 0, Vec 2 0 0, Vec 3 0 0] 3 = [Vec 1 0 0, Vec 2 0 0, Vec 3 0 0]"
  by (simp_all add: window_def window_start_def window_end_def py_slice_def clip_bound_def)

lemma unravel_points_line:
  assumes "eig_exact_on eig (window 1 [Vec 0 0 0, Vec 1 0 0, Vec 2 0 0, Vec 3 0 0] 1)"
    and "eig_exact_on eig (window 1 [Vec 0 0 0, Vec 1 0 0, Vec 2 0 0, Vec 3 0 0] 2)"
    and "eig_exact_on eig (window 1 [Vec 0 0 0, Vec 1 0 0, Vec 2 0 0, Vec 3 0 0] 3)"
  shows "unravel_points eig 1 [Vec 0 0 0, Vec 1 0 0, Vec 2 0 0, Vec 3 0 0] (Vec 0 0 0)
           = Inr [Vec 0 0 0, Vec 1 0 0, Vec 2 0 0, Vec 3 0 0]"
proof -
  let ?P = "[Vec 0 0 0, Vec 1 0 0, Vec 2 0 0, Vec 3 0 0]"
  from exact_direction_x[OF assms(1)[unfolded window_line] covariance_line3(1)]
  obtain k1 where k1: "k1 \<noteq> 0" "get_principal_direction eig (window 1 ?P 1) = Vec k1 0 0"
    unfolding window_line by auto
  from exact_direction_x[OF assms(2)[unfolded window_line] covariance_line4]
  obtain k2 where k2: "k2 \<noteq> 0" "get_principal_direction eig (window 1 ?P 2) = Vec k2 0 0"
    unfolding window_line by auto
  from exact_direction_x[OF assms(3)[unfolded window_line] covariance_line3(2)]
  obtain k3 where k3: "k3 \<noteq> 0" "get_principal_direction eig (window 1 ?P 3) = Vec k3 0 0"
    unfolding window_line by auto
  have s1: "unravel_step eig 1 ?P [Vec 0 0 0] 1 = Inr [Vec 0 0 0, Vec 1 0 0]"
    using unravel_step_x[OF k1(2,1), of "[Vec 0 0 0]"]
    by (simp add: np_sign_def np_norm_def)
  have s2: "unravel_step eig 1 ?P [Vec 0 0 0, Vec 1 0 0] 2 = Inr [Vec 0 0 0, Vec 1 0 0, Vec 2 0 0]"
    using unravel_step_x[OF k2(2,1), of "[Vec 0 0 0, Vec 1 0 0]"]
    by (simp add: np_sign_def np_norm_def)
  have s3: "unravel_step eig 1 ?P [Vec 0 0 0, Vec 1 0 0, Vec 2 0 0] 3
              = Inr [Vec 0 0 0, Vec 1 0 0, Vec 2 0 0, Vec 3 0 0]"
    using unravel_step_x[OF k3(2,1), of "[Vec 0 0 0, Vec 1 0 0, Vec 2 0 0]"]
    by (simp add: np_sign_def np_norm_def)
  show ?thesis
    using s1 s2 s3 by (simp add: unravel_points_def numeral_2_eq_2 numeral_3_eq_3)
qed

text \<open>
  C6. A single root section with the collinear points (0,0,0), (1,0,0), (2,0,0), (3,0,0),
  unravelled with a half-window length of 1, keeps its points, for every eigen-solver that
  returns a principal direction on the three windows of the section.
\<close>

theorem straight_section_unchanged:
  assumes "eig_exact_on eig (window 1 [Vec 0 0 0, Vec 1 0 0, Vec 2 0 0, Vec 3 0 0] 1)"
    and "eig_exact_on eig (window 1 [Vec 0 0 0, Vec 1 0 0, Vec 2 0 0, Vec 3 0 0] 2)"
    and "eig_exact_on eig (window 1 [Vec 0 0 0, Vec 1 0 0, Vec 2 0 0, Vec 3 0 0] 3)"
  shows "unravel eig 1 [0] [\<lparr>points = [Vec 0 0 0, Vec 1 0 0, Vec 2 0 0, Vec 3 0 0], parent = None\<rparr>]
           = Inr [\<lparr>points = [Vec 0 0 0, Vec 1 0 0, Vec 2 0 0, Vec 3 0 0], parent = None\<rparr>]"
  by (rule unravel_single_root[OF unravel_points_line[OF assms]])

theorem straight_section_unchanged_witness:
  "unravel eig_diagonal 1 [0] [\<lparr>points = [Vec 0 0 0, Vec 1 0 0, Vec 2 0 0, Vec 3 0 0], parent = None\<rparr>]
     = Inr [\<lparr>points = [Vec 0 0 0, Vec 1 0 0, Vec 2 0 0, Vec 3 0 0], parent = None\<rparr>]"
proof -
  have "eig_exact_on eig_diagonal (window 1 [Vec 0 0 0, Vec 1 0 0, Vec 2 0 0, Vec 3 0 0] 1)"
    unfolding window_line by (rule eig_diagonal_exact[OF covariance_line3(1)]) simp_all
  moreover have "eig_exact_on eig_diagonal (window 1 [Vec 0 0 0, Vec 1 0 0, Vec 2 0 0, Vec 3 0 0] 2)"
    unfolding window_line by (rule eig_diagonal_exact[OF covariance_line4]) simp_all
  moreover have "eig_exact_on eig_diagonal (window 1 [Vec 0 0 0, Vec 1 0 0, Vec 2 0 0, Vec 3 0 0] 3)"
    unfolding window_line by (rule eig_diagonal_exact[OF covariance_line3(2)]) simp_all
  ultimately show ?thesis by (rule straight_section_unchanged)
qed

section \<open>Sections of two points\<close>

lemma mat_vec_covariance_pair:
  "mat_vec (covariance [p, q]) v = scale (np_dot (vsub q p) v / 2) (vsub q p)"
  by (cases p; cases q; cases v)
    (simp add: covariance_def np_mean_def np_dot_XT_X_def entry_def mat_vec_def field_simps)

lemma scale_cancel:
  assumes "scale a s = scale lam d" "lam \<noteq> 0"
  shows "d = scale (a / lam) s"
  using assms by (cases s; cases d) (simp add: field_simps)

lemma is_principal_pair:
  assumes "is_principal (covariance [p, q]) d" "p \<noteq> q"
  shows "\<exists>c. c \<noteq> 0 \<and> d = scale c (vsub q p)"
proof -
  let ?s = "vsub q p"
  from assms(1) obtain lam where nz: "d \<noteq> vzero"
    and ev: "mat_vec (covariance [p, q]) d = scale lam d"
    and mx: "\<And>u mu. u \<noteq> vzero \<Longrightarrow> mat_vec (covariance [p, q]) u = scale mu u \<Longrightarrow> mu \<le> lam"
    unfolding is_principal_def by blast
  have s0: "?s \<noteq> vzero" using assms(2) by (cases p; cases q) (auto simp: vzero_def)
  then have ss: "0 < np_dot ?s ?s"
    using np_dot_self_nonneg[of ?s] np_dot_self_zero[of ?s] by linarith
  have "mat_vec (covariance [p, q]) ?s = scale (np_dot ?s ?s / 2) ?s"
    by (rule mat_vec_covariance_pair)
  from mx[OF s0 this] ss have lam: "0 < lam" by simp
  from ev have "scale (np_dot ?s d / 2) ?s = scale lam d"
    by (simp only: mat_vec_covariance_pair)
  from scale_cancel[OF this] lam obtain c where d: "d = scale c ?s" by blast
  have "c \<noteq> 0"
  proof
    assume "c = 0"
    with d have "d = vzero" by (simp add: scale_zero)
    then show False using nz by simp
  qed
  with d show ?thesis by blast
qed

lemma window_pair:
  assumes "0 \<le> H"
  shows "window H [p, q] 1 = [p, q]"
  using assms by (simp add: window_def window_start_def window_end_def py_slice_def clip_bound_def)

lemma vadd_vsub: "vadd (vsub q p) p = q"
  by (cases p; cases q) simp

lemma unravel_points_pair:
  assumes "eig_exact_on eig [p, q]" "p \<noteq> q" "0 \<le> H"
  shows "unravel_points eig H [p, q] p = Inr [p, q]"
proof -
  from is_principal_pair[OF assms(1)[unfolded eig_exact_on_def] assms(2)]
  obtain c where c: "c \<noteq> 0" and d: "get_principal_direction eig [p, q] = scale c (vsub q p)"
    by blast
  have s0: "vsub q p \<noteq> vzero" using assms(2) by (cases p; cases q) (auto simp: vzero_def)
  have n: "np_norm (scale c (vsub q p)) \<noteq> 0"
    using c s0 by (simp add: np_norm_scale np_norm_zero)
  have "unravel_step eig H [p, q] [p] 1 = Inr [p, q]"
    using n window_pair[OF assms(3), of p q] d
    by (simp add: unravel_step_def Let_def pointed_rescaled_parallel[OF s0 c] vadd_vsub)
  then show ?thesis by (simp add: unravel_points_def)
qed

text \<open>
  In exact arithmetic, and with a solver that keeps its contract on the covariance matrix
  of the two points, a root section of two distinct points keeps its points, whatever the
  half-window length \<open>H \<ge> 0\<close> and wherever it stands in the morphology. The statement is
  about real numbers: rounding and overflow of the float32 arithmetic of the program are
  not in it.
\<close>

lemma two_point_root_section_exact_arithmetic:
  assumes "parents_first morph [] iter" "unravel eig H iter morph = Inr out"
    and "sid \<in> set iter" "parent (morph ! sid) = None" "points (morph ! sid) = [p, q]"
    and "p \<noteq> q" "0 \<le> H" "eig_sound eig (covariance [p, q])"
  shows "points (out ! sid) = [p, q]"
proof -
  note exact = sound_solver_gives_principal_direction[OF assms(8)]
  from unravel_sections_connected[OF assms(1) assms(2)[unfolded unravel_def]] assms(3)
  have u: "unravel_points eig H (points (morph ! sid)) (hd (points (out ! sid)))
             = Inr (points (out ! sid))"
    and r: "parent (morph ! sid) = None \<longrightarrow> hd (points (out ! sid)) = hd (points (morph ! sid))"
    by auto
  from r assms(4,5) have "hd (points (out ! sid)) = p" by simp
  with u assms(5) have "unravel_points eig H [p, q] p = Inr (points (out ! sid))" by simp
  with unravel_points_pair[OF exact assms(6,7)] show ?thesis by simp
qed

section \<open>Connectivity and topology of the output tree\<close>

text \<open>
  C2. After a run that returns, for a traversal that visits parents before their children
  and every section once: the output points of every visited section start with the first
  input point of the section, if it is a root, and with the last output point of its
  parent otherwise.
\<close>

theorem sections_stay_connected:
  assumes "parents_first morph [] iter" "unravel eig H iter morph = Inr out" "sid \<in> set iter"
  shows "points (out ! sid) \<noteq> []
       \<and> (parent (morph ! sid) = None \<longrightarrow>
            points (morph ! sid) \<noteq> [] \<and> hd (points (out ! sid)) = hd (points (morph ! sid)))
       \<and> (\<forall>p. parent (morph ! sid) = Some p \<longrightarrow>
            points (out ! p) \<noteq> [] \<and> hd (points (out ! sid)) = last (points (out ! p)))"
  using unravel_sections_connected[OF assms(1) assms(2)[unfolded unravel_def]] assms(3)
  by simp

lemma covariance_child:
  "covariance [Vec 12 5 0, Vec 14 5 0] = Mat (Vec 2 0 0) (Vec 0 0 0) (Vec 0 0 0)"
  by (simp add: covariance_def np_mean_def np_dot_XT_X_def entry_def)

lemma unravel_points_child:
  "unravel_points eig_diagonal 5 [Vec 12 5 0, Vec 14 5 0] (Vec 13 0 0) = Inr [Vec 13 0 0, Vec 15 0 0]"
proof -
  have w: "window 5 [Vec 12 5 0, Vec 14 5 0] 1 = [Vec 12 5 0, Vec 14 5 0]"
    by (rule window_pair) simp
  have d: "get_principal_direction eig_diagonal (window 5 [Vec 12 5 0, Vec 14 5 0] 1) = Vec 1 0 0"
    unfolding w by (rule eig_diagonal_direction[OF covariance_child]) simp_all
  have "unravel_step eig_diagonal 5 [Vec 12 5 0, Vec 14 5 0] [Vec 13 0 0] 1
          = Inr [Vec 13 0 0, Vec 15 0 0]"
    using unravel_step_x[OF d, of "[Vec 13 0 0]"] by (simp add: np_sign_def np_norm_def)
  then show ?thesis by (simp add: unravel_points_def)
qed

lemma unravel_bent_with_child:
  "unravel eig_diagonal 5 [0, 1]
     [\<lparr>points = [Vec 0 0 0, Vec 0 10 0, Vec 12 5 0], parent = None\<rparr>,
      \<lparr>points = [Vec 12 5 0, Vec 14 5 0], parent = Some 0\<rparr>]
   = Inr [\<lparr>points = [Vec 0 0 0, Vec 0 0 0, Vec 13 0 0], parent = None\<rparr>,
          \<lparr>points = [Vec 13 0 0, Vec 15 0 0], parent = Some 0\<rparr>]"
proof -
  have e: "eig_exact_on eig_diagonal [Vec 0 0 0, Vec 0 10 0, Vec 12 5 0]"
    by (rule eig_diagonal_exact[OF covariance_bent]) simp_all
  have r: "unravel_points eig_diagonal 5 [Vec 0 0 0, Vec 0 10 0, Vec 12 5 0] (Vec 0 0 0)
             = Inr [Vec 0 0 0, Vec 0 0 0, Vec 13 0 0]"
    by (rule unravel_points_bent[OF e]) simp
  show ?thesis
    by (simp add: unravel_def unravel_section_def is_root_def first_point_def last_point_def
        r unravel_points_child)
qed

theorem sections_stay_connected_witness:
  "hd (points ([\<lparr>points = [Vec 0 0 0, Vec 0 0 0, Vec 13 0 0], parent = None\<rparr>,
                \<lparr>points = [Vec 13 0 0, Vec 15 0 0], parent = Some 0\<rparr>] ! 1))
     = last (points ([\<lparr>points = [Vec 0 0 0, Vec 0 0 0, Vec 13 0 0], parent = None\<rparr>,
                      \<lparr>points = [Vec 13 0 0, Vec 15 0 0], parent = Some 0\<rparr>] ! 0))
   \<and> unravel eig_diagonal 5 [0, 1]
       [\<lparr>points = [Vec 0 0 0, Vec 0 10 0, Vec 12 5 0], parent = None\<rparr>,
        \<lparr>points = [Vec 12 5 0, Vec 14 5 0], parent = Some 0\<rparr>]
     = Inr [\<lparr>points = [Vec 0 0 0, Vec 0 0 0, Vec 13 0 0], parent = None\<rparr>,
            \<lparr>points = [Vec 13 0 0, Vec 15 0 0], parent = Some 0\<rparr>]"
proof -
  have pf: "parents_first
     [\<lparr>points = [Vec 0 0 0, Vec 0 10 0, Vec 12 5 0], parent = None\<rparr>,
      \<lparr>points = [Vec 12 5 0, Vec 14 5 0], parent = Some 0\<rparr>] [] [0, 1]"
    by simp
  show ?thesis
    using sections_stay_connected[OF pf unravel_bent_with_child, of 1] unravel_bent_with_child
    by simp
qed

text \<open>
  After a run that returns, the output tree has as many sections as the input tree and
  every section has the parent it had; a visited section has as many points as the input
  section, except that it has one point if the input section has none; a section that is
  not visited is the input section.
\<close>

lemma topology_but_for_empty_sections:
  assumes "unravel eig H iter morph = Inr out"
  shows "length out = length morph
       \<and> (\<forall>j<length morph. parent (out ! j) = parent (morph ! j)
            \<and> (j \<in> set iter \<longrightarrow> length (points (out ! j)) = max 1 (length (points (morph ! j))))
            \<and> (j \<notin> set iter \<longrightarrow> out ! j = morph ! j))"
  by (rule unravel_sections_topology[OF assms[unfolded unravel_def]])


section \<open>The batch driver never stops at a failure\<close>

lemma unravel_all_loop_trace:
  "logged (unravel_all_loop run write input_dir output_dir files w) =
     logged w @ concat (map (\<lambda>f. Info f #
        (case attempt run write input_dir output_dir f of
           Inl e \<Rightarrow> [Warning (''Unravelling '' @ f @ '' failed''), WarningException e]
         | Inr _ \<Rightarrow> [])) files)
   \<and> written (unravel_all_loop run write input_dir output_dir files w) =
     written w @ List.map_filter (\<lambda>f.
        (case attempt run write input_dir output_dir f of
           Inl e \<Rightarrow> None
         | Inr x \<Rightarrow> Some x)) files"
proof (induction files arbitrary: w)
  case Nil
  then show ?case by simp
next
  case (Cons f files)
  show ?case
    by (simp add: Cons.IH attempt_def Let_def split: sum.splits option.splits)
qed

text \<open>
  C9. The batch run is a total function of its inputs: it returns for every directory
  listing. Its log holds, for every file with a good extension and in the order of the
  listing, the record of the file, followed by the two warnings if unravelling or writing
  the file raised; the files written are those of the files for which neither raised, in
  the same order. A failure changes nothing for the files after it.
\<close>

theorem batch_continues_after_failure:
  "logged (unravel_all good_ext listdir read_morphology write eig input_dir output_dir H w) =
     logged w @ concat (map (\<lambda>f. Info f #
        (case attempt (unravel_file read_morphology eig H) write input_dir output_dir f of
           Inl e \<Rightarrow> [Warning (''Unravelling '' @ f @ '' failed''), WarningException e]
         | Inr _ \<Rightarrow> [])) (filter good_ext (listdir input_dir)))
   \<and> written (unravel_all good_ext listdir read_morphology write eig input_dir output_dir H w) =
     written w @ List.map_filter (\<lambda>f.
        (case attempt (unravel_file read_morphology eig H) write input_dir output_dir f of
           Inl e \<Rightarrow> None
         | Inr x \<Rightarrow> Some x)) (filter good_ext (listdir input_dir))"
  unfolding unravel_all_def Let_def by (rule unravel_all_loop_trace)

theorem batch_continues_after_failure_witness:
  "unravel_all (\<lambda>f. True) (\<lambda>d. [''bad.swc'', ''good.swc''])
     (\<lambda>f. if f = ''in/good.swc''
           then Inr ([\<lparr>points = [Vec 0 0 0, Vec 2 0 0], parent = None\<rparr>], [0])
           else Inl (OtherError ''corrupt''))
     (\<lambda>m f. None) eig_diagonal ''in'' ''out'' 5 \<lparr>written = [], logged = []\<rparr>
   = \<lparr>written = [(''out/good.swc'', [\<lparr>points = [Vec 0 0 0, Vec 2 0 0], parent = None\<rparr>])],
      logged = [Info ''bad.swc'', Warning ''Unravelling bad.swc failed'',
             WarningException (OtherError ''corrupt''), Info ''good.swc'']\<rparr>"
proof -
  let ?w = "unravel_all (\<lambda>f. True) (\<lambda>d. [''bad.swc'', ''good.swc''])
     (\<lambda>f. if f = ''in/good.swc''
           then Inr ([\<lparr>points = [Vec 0 0 0, Vec 2 0 0], parent = None\<rparr>], [0])
           else Inl (OtherError ''corrupt''))
     (\<lambda>m f. None) eig_diagonal ''in'' ''out'' 5 \<lparr>written = [], logged = []\<rparr>"
  have c: "covariance [Vec 0 0 0, Vec 2 0 0] = Mat (Vec 2 0 0) (Vec 0 0 0) (Vec 0 0 0)"
    by (simp add: covariance_def np_mean_def np_dot_XT_X_def entry_def)
  have e: "eig_exact_on eig_diagonal [Vec 0 0 0, Vec 2 0 0]"
    by (rule eig_diagonal_exact[OF c]) simp_all
  have u: "unravel eig_diagonal 5 [0] [\<lparr>points = [Vec 0 0 0, Vec 2 0 0], parent = None\<rparr>]
     = Inr [\<lparr>points = [Vec 0 0 0, Vec 2 0 0], parent = None\<rparr>]"
    by (rule unravel_single_root[OF unravel_points_pair[OF e]]) simp_all
  have "logged ?w = [Info ''bad.swc'', Warning ''Unravelling bad.swc failed'',
             WarningException (OtherError ''corrupt''), Info ''good.swc'']
      \<and> written ?w = [(''out/good.swc'', [\<lparr>points = [Vec 0 0 0, Vec 2 0 0], parent = None\<rparr>])]"
    by (simp add: conjunct1[OF batch_continues_after_failure]
        conjunct2[OF batch_continues_after_failure] attempt_def unravel_file_def
        os_path_join_def os_path_basename_def u)
  then show ?thesis by (cases ?w) simp
qed

section \<open>The input arrays are never written to\<close>

lemma rows_fresh: "rows (h @ [r]) \<lparr>base = length h, start = 0, stop = length r\<rparr> = r"
  by (simp add: rows_def)

lemma isub_fresh:
  "isub (h @ [r]) \<lparr>base = length h, start = 0, stop = length r\<rparr> m
     = h @ [map (\<lambda>p. vsub p m) r]"
proof -
  have "map (\<lambda>i. if 0 \<le> i \<and> i < length r then vsub (r ! i) m else r ! i) [0..<length r]
          = map (\<lambda>p. vsub p m) r"
    by (rule nth_equalityI) simp_all
  moreover have "isub (h @ [r]) \<lparr>base = length h, start = 0, stop = length r\<rparr> m
     = (h @ [r])[length h :=
          map (\<lambda>i. if 0 \<le> i \<and> i < length r then vsub (r ! i) m else r ! i) [0..<length r]]"
    unfolding isub_def by simp
  ultimately show ?thesis by simp
qed

lemma get_principal_direction_h_eq:
  "get_principal_direction_h eig h a =
     (h @ [map (\<lambda>p. vsub p (np_mean (rows h a))) (rows h a)],
      get_principal_direction eig (rows h a))"
proof -
  let ?r = "rows h a"
  have c: "np_copy h (np_asarray a) = (h @ [?r], \<lparr>base = length h, start = 0, stop = length ?r\<rparr>)"
    by (simp add: np_copy_def np_asarray_def)
  have r2: "rows (h @ [map (\<lambda>p. vsub p (np_mean ?r)) ?r])
              \<lparr>base = length h, start = 0, stop = length ?r\<rparr>
            = map (\<lambda>p. vsub p (np_mean ?r)) ?r"
    using rows_fresh[of h "map (\<lambda>p. vsub p (np_mean ?r)) ?r"] by simp
  show ?thesis
    unfolding get_principal_direction_h_def c
    by (simp add: rows_fresh isub_fresh r2 get_principal_direction_def Let_def
        split: prod.splits)
qed

lemma unravel_step_h_frame:
  "\<exists>x. fst (unravel_step_h eig H h pts acc wc) = h @ [x]"
  by (simp add: unravel_step_h_def get_principal_direction_h_eq Let_def)

lemma unravel_loop_h_frame:
  "take (length h) (fst (unravel_loop_h eig H h pts acc cs)) = h"
proof (induction cs arbitrary: h acc)
  case Nil
  then show ?case by simp
next
  case (Cons wc cs)
  obtain h1 res where s: "unravel_step_h eig H h pts acc wc = (h1, res)" by (cases "unravel_step_h eig H h pts acc wc")
  from unravel_step_h_frame[of eig H h pts acc wc] s obtain x where h1: "h1 = h @ [x]" by auto
  show ?case
  proof (cases res)
    case (Inl e)
    then show ?thesis using s h1 by simp
  next
    case (Inr acc')
    have "take (length h1) (fst (unravel_loop_h eig H h1 pts acc' cs)) = h1" by (rule Cons.IH)
    then have "take (length h) (take (length h1) (fst (unravel_loop_h eig H h1 pts acc' cs))) = h"
      using h1 by simp
    then have "take (length h) (fst (unravel_loop_h eig H h1 pts acc' cs)) = h"
      using h1 by (simp add: min_def)
    then show ?thesis using s Inr by simp
  qed
qed

lemma unravel_section_h_frame:
  "take (length h) (fst (unravel_section_h eig H h nm sid)) = h"
proof -
  let ?first = "if is_root (nm ! sid) then first_point (points (nm ! sid))
                else last_point (points (nm ! the (parent (nm ! sid))))"
  let ?pts = "\<lparr>base = sid, start = 0, stop = length (h ! sid)\<rparr>"
  show ?thesis
  proof (cases ?first)
    case (Inl e)
    then show ?thesis by (simp add: unravel_section_h_def Let_def)
  next
    case (Inr first)
    obtain h' res where u: "unravel_points_h eig H h ?pts first = (h', res)"
      by (cases "unravel_points_h eig H h ?pts first")
    have "take (length h) (fst (unravel_points_h eig H h ?pts first)) = h"
      unfolding unravel_points_h_def by (rule unravel_loop_h_frame)
    then have "take (length h) h' = h" using u by simp
    then show ?thesis
      using Inr u by (cases res) (simp_all add: unravel_section_h_def Let_def)
  qed
qed

lemma unravel_sections_h_frame:
  "take (length h) (fst (unravel_sections_h eig H h nm rest)) = h"
proof (induction rest arbitrary: h nm)
  case Nil
  then show ?case by simp
next
  case (Cons sid rest)
  obtain h1 res where s: "unravel_section_h eig H h nm sid = (h1, res)"
    by (cases "unravel_section_h eig H h nm sid")
  from unravel_section_h_frame[of h eig H nm sid] s have h1: "take (length h) h1 = h" by simp
  show ?case
  proof (cases res)
    case (Inl e)
    then show ?thesis using s h1 by simp
  next
    case (Inr nm')
    have "take (length h1) (fst (unravel_sections_h eig H h1 nm' rest)) = h1" by (rule Cons.IH)
    then have "take (length h) (take (length h1) (fst (unravel_sections_h eig H h1 nm' rest))) = h"
      using h1 by simp
    moreover have "length h \<le> length h1"
    proof -
      have "length (take (length h) h1) = length h" using h1 by simp
      then show ?thesis by simp
    qed
    ultimately have "take (length h) (fst (unravel_sections_h eig H h1 nm' rest)) = h"
      by (simp add: min_def)
    then show ?thesis using s Inr by simp
  qed
qed

lemma rows_np_slice_whole:
  assumes "h ! sid = P"
  shows "rows h (np_slice \<lparr>base = sid, start = 0, stop = length P\<rparr> lo hi) = py_slice P lo hi"
proof -
  have "max a b - a = b - a" for a b :: nat by arith
  then show ?thesis
    using assms by (simp add: rows_def np_slice_def py_slice_def Let_def)
qed

lemma rows_whole:
  assumes "h ! sid = P"
  shows "rows h \<lparr>base = sid, start = 0, stop = length P\<rparr> = P"
  using assms by (simp add: rows_def)

lemma unravel_step_h_eq:
  assumes "h ! sid = P" "sid < length h"
  shows "unravel_step_h eig H h \<lparr>base = sid, start = 0, stop = length P\<rparr> acc wc =
           (h @ [map (\<lambda>p. vsub p (np_mean (window H P wc))) (window H P wc)],
            unravel_step eig H P acc wc)"
proof -
  have w: "rows h (np_slice \<lparr>base = sid, start = 0, stop = length P\<rparr>
                     (max 0 (int wc - H - 1)) (min (int (length P)) (int wc + H + 1)))
             = window H P wc"
    unfolding rows_np_slice_whole[OF assms(1)]
    by (simp add: window_def window_start_def window_end_def)
  have "(h @ [x]) ! sid = P" for x using assms by (simp add: nth_append)
  then have r: "rows (h @ [x]) \<lparr>base = sid, start = 0, stop = length P\<rparr> = P" for x
    by (rule rows_whole)
  show ?thesis
    by (simp add: unravel_step_h_def get_principal_direction_h_eq w r unravel_step_def Let_def)
qed

lemma unravel_loop_h_eq:
  assumes "h ! sid = P" "sid < length h"
  shows "snd (unravel_loop_h eig H h \<lparr>base = sid, start = 0, stop = length P\<rparr> acc cs)
           = unravel_loop eig H P acc cs"
  using assms
proof (induction cs arbitrary: h acc)
  case Nil
  then show ?case by simp
next
  case (Cons wc cs)
  let ?h1 = "h @ [map (\<lambda>p. vsub p (np_mean (window H P wc))) (window H P wc)]"
  have a: "?h1 ! sid = P" "sid < length ?h1" using Cons.prems by (simp_all add: nth_append)
  show ?case
    using Cons.IH[OF a]
    by (simp add: unravel_step_h_eq[OF Cons.prems] split: sum.splits)
qed

lemma unravel_section_h_eq:
  assumes "h ! sid = points (morph ! sid)" "sid < length h"
  shows "snd (unravel_section_h eig H h nm sid) = unravel_section eig H morph nm sid"
proof -
  let ?first = "if is_root (nm ! sid) then first_point (points (nm ! sid))
                else last_point (points (nm ! the (parent (nm ! sid))))"
  let ?pts = "\<lparr>base = sid, start = 0, stop = length (h ! sid)\<rparr>"
  show ?thesis
  proof (cases ?first)
    case (Inl e)
    then show ?thesis by (simp add: unravel_section_h_def unravel_section_def Let_def)
  next
    case (Inr first)
    obtain h' res where u: "unravel_points_h eig H h ?pts first = (h', res)"
      by (cases "unravel_points_h eig H h ?pts first")
    have "snd (unravel_points_h eig H h ?pts first)
            = unravel_points eig H (points (morph ! sid)) first"
      using unravel_loop_h_eq[OF assms] assms(1)
      by (simp add: unravel_points_h_def unravel_points_def)
    then have res: "unravel_points eig H (points (morph ! sid)) first = res" using u by simp
    show ?thesis
      using Inr u res
      by (cases res) (simp_all add: unravel_section_h_def unravel_section_def Let_def)
  qed
qed

lemma unravel_sections_h_eq:
  assumes "take (length morph) h = map points morph" "set rest \<subseteq> {..<length morph}"
  shows "snd (unravel_sections_h eig H h nm rest) = unravel_sections eig H morph nm rest"
  using assms
proof (induction rest arbitrary: h nm)
  case Nil
  then show ?case by simp
next
  case (Cons sid rest)
  from Cons.prems(2) have sid: "sid < length morph" by simp
  have len: "length morph \<le> length h"
  proof -
    have "length (take (length morph) h) = length morph" using Cons.prems(1) by simp
    then show ?thesis by simp
  qed
  have "take (length morph) h ! sid = points (morph ! sid)"
    using Cons.prems(1) sid by simp
  then have at: "h ! sid = points (morph ! sid)" using sid by simp
  have lt: "sid < length h" using sid len by simp
  obtain h1 res where s: "unravel_section_h eig H h nm sid = (h1, res)"
    by (cases "unravel_section_h eig H h nm sid")
  from unravel_section_h_eq[OF at lt, of eig H nm] s
  have res: "res = unravel_section eig H morph nm sid" by simp
  from unravel_section_h_frame[of h eig H nm sid] s have h1: "take (length h) h1 = h" by simp
  have "take (length morph) (take (length h) h1) = take (length morph) h1"
    using len by (simp add: min_def)
  then have inv: "take (length morph) h1 = map points morph"
    using h1 Cons.prems(1) by simp
  have rest: "set rest \<subseteq> {..<length morph}" using Cons.prems(2) by simp
  show ?case
    using Cons.IH[OF inv rest] s res by (simp split: sum.splits)
qed

text \<open>On the ids of the morphology, the run with the heap returns what \<open>unravel\<close> returns.\<close>

lemma unravel_h_refines:
  assumes "set iter \<subseteq> {..<length morph}"
  shows "snd (unravel_h eig H iter morph) = unravel eig H iter morph"
  unfolding unravel_h_def unravel_def
  by (rule unravel_sections_h_eq[OF _ assms]) simp

text \<open>
  In this model a write through a view does reach the array: centering the window in
  place, without the copy, would alter the points of the input section.
\<close>

lemma centering_a_view_writes_the_array:
  "isub [[Vec 0 0 0, Vec 2 0 0, Vec 7 0 0]] (np_slice \<lparr>base = 0, start = 0, stop = 3\<rparr> 0 2) (Vec 1 0 0)
     = [[Vec (- 1) 0 0, Vec 1 0 0, Vec 7 0 0]]"
  by (simp add: isub_def np_slice_def clip_bound_def Let_def upt_rec numeral_2_eq_2 numeral_3_eq_3)

text \<open>
  C8. Whatever the eigen-solver, the half-window length, the traversal and the morphology,
  and whether or not the run raises, the point arrays of the input sections are after the
  run what they were before. The estimator centers a copy: it leaves every array that
  existed before the call as it was, and returns the principal direction of the rows it
  was given.
\<close>

theorem input_arrays_unchanged:
  "take (length morph) (fst (unravel_h eig H iter morph)) = map points morph
   \<and> take (length h) (fst (get_principal_direction_h eig h a)) = h
   \<and> snd (get_principal_direction_h eig h a) = get_principal_direction eig (rows h a)"
proof -
  have "take (length (map points morph)) (fst (unravel_h eig H iter morph)) = map points morph"
    unfolding unravel_h_def by (rule unravel_sections_h_frame)
  then show ?thesis by (simp add: get_principal_direction_h_eq)
qed

theorem input_arrays_unchanged_witness:
  "take 1 (fst (unravel_h eig_diagonal 5 [0]
      [\<lparr>points = [Vec 0 0 0, Vec 0 10 0, Vec 12 5 0], parent = None\<rparr>]))
     = [[Vec 0 0 0, Vec 0 10 0, Vec 12 5 0]]"
  using input_arrays_unchanged[of "[\<lparr>points = [Vec 0 0 0, Vec 0 10 0, Vec 12 5 0], parent = None\<rparr>]"
      eig_diagonal 5 "[0]"]
  by simp

end
